theory Spec2Isabelle
  imports Complex_Main
begin

section \<open>Floating-point values\<close>

text \<open>
  The pixel values of a floating-point cube and every \<^verbatim>\<open>double\<close> of the source are
  modelled by the type \<open>fp\<close>: a finite value is the real number it denotes, and NaN and
  the two infinities are values of their own. The functions \<open>fp_add\<close> and \<open>fp_mul\<close> are
  the exact sum and product; the rounding of a result of the source to a \<^verbatim>\<open>double\<close> is
  the function \<open>to_double\<close> below, and the narrowing of a \<^verbatim>\<open>double\<close> to a \<^verbatim>\<open>float\<close>,
  which the source performs whenever it stores a \<^verbatim>\<open>double\<close> in a \<^verbatim>\<open>float\<close> object
  (\<^verbatim>\<open>const float thresh_p = threshold;\<close>), is the function \<open>to_float\<close>. A value of the
  model has no sign bit of its own when it is a zero or a NaN; where the source reads
  the sign bit of such a value (\<^verbatim>\<open>copysign\<close>), the bit is given separately.
\<close>

datatype fp = NaN | MInf | Fin real | PInf

text \<open>The comparison \<^verbatim>\<open>a < b\<close> of C: false as soon as one operand is NaN.\<close>

fun fp_less :: "fp \<Rightarrow> fp \<Rightarrow> bool" where
  "fp_less NaN b = False"
| "fp_less a NaN = False"
| "fp_less PInf b = False"
| "fp_less a MInf = False"
| "fp_less MInf b = True"
| "fp_less a PInf = True"
| "fp_less (Fin a) (Fin b) = (a < b)"

text \<open>\<^verbatim>\<open>a <= b\<close> of C.\<close>

fun fp_le :: "fp \<Rightarrow> fp \<Rightarrow> bool" where
  "fp_le NaN b = False"
| "fp_le a NaN = False"
| "fp_le MInf b = True"
| "fp_le a PInf = True"
| "fp_le PInf b = False"
| "fp_le a MInf = False"
| "fp_le (Fin a) (Fin b) = (a \<le> b)"

fun fp_neg :: "fp \<Rightarrow> fp" where
  "fp_neg NaN = NaN"
| "fp_neg MInf = PInf"
| "fp_neg PInf = MInf"
| "fp_neg (Fin a) = Fin (- a)"

fun fp_abs :: "fp \<Rightarrow> fp" where
  "fp_abs NaN = NaN"
| "fp_abs MInf = PInf"
| "fp_abs PInf = PInf"
| "fp_abs (Fin a) = Fin \<bar>a\<bar>"

text \<open>The exact product of two doubles; \<open>0 * inf\<close> is NaN.\<close>

fun fp_mul :: "fp \<Rightarrow> fp \<Rightarrow> fp" where
  "fp_mul (Fin a) (Fin b) = Fin (a * b)"
| "fp_mul NaN b = NaN"
| "fp_mul a NaN = NaN"
| "fp_mul (Fin a) b =
     (if a = 0 then NaN else if 0 < a then b else fp_neg b)"
| "fp_mul a (Fin b) =
     (if b = 0 then NaN else if 0 < b then a else fp_neg a)"
| "fp_mul MInf MInf = PInf"
| "fp_mul MInf PInf = MInf"
| "fp_mul PInf MInf = MInf"
| "fp_mul PInf PInf = PInf"

fun is_nan :: "fp \<Rightarrow> bool" where
  "is_nan NaN = True"
| "is_nan a = False"

fun is_finite :: "fp \<Rightarrow> bool" where
  "is_finite (Fin a) = True"
| "is_finite a = False"

subsection \<open>Narrowing a double to single precision\<close>

text \<open>Rounding a real to the nearest integer, ties to the even one.\<close>

definition rne :: "real \<Rightarrow> int" where
  "rne x = (let f = \<lfloor>x\<rfloor>; r = x - of_int f in
     if r < 1 / 2 then f else if 1 / 2 < r then f + 1
     else if even f then f else f + 1)"

text \<open>
  The exponent of the binade of a positive real in single precision: the exponent of the
  leading bit, but never below that of the smallest normal number, so that the
  subnormal numbers share the spacing \<open>2 powi (-149)\<close>.
\<close>

definition f32_exp :: "real \<Rightarrow> int" where
  "f32_exp a = max \<lfloor>log 2 a\<rfloor> (- 126)"

text \<open>The spacing of the single-precision numbers in the binade of \<open>a\<close> (24 significant bits).\<close>

definition f32_ulp :: "real \<Rightarrow> real" where
  "f32_ulp a = 2 powi (f32_exp a - 23)"

definition f32_round :: "real \<Rightarrow> real" where
  "f32_round x = (if x = 0 then 0
     else sgn x * (of_int (rne (\<bar>x\<bar> / f32_ulp \<bar>x\<bar>)) * f32_ulp \<bar>x\<bar>))"

text \<open>
  The conversion of a double to a float: round to nearest even; a result beyond the
  largest finite float is an infinity.
\<close>

fun to_float :: "fp \<Rightarrow> fp" where
  "to_float (Fin x) =
     (if 2 ^ 128 \<le> f32_round x then PInf
      else if f32_round x \<le> - (2 ^ 128) then MInf
      else Fin (f32_round x))"
| "to_float a = a"

text \<open>A value that a \<^verbatim>\<open>float\<close> object can hold.\<close>

definition is_float :: "fp \<Rightarrow> bool" where
  "is_float a = (to_float a = a)"

subsection \<open>Rounding to double precision\<close>

text \<open>
  The same for double precision: 53 significant bits, the smallest normal number
  \<open>2 powi (-1022)\<close>, and an infinity from \<open>2 ^ 1024\<close> on. \<open>to_double\<close> is the rounding that
  the result of an arithmetic operation on doubles undergoes.
\<close>

definition f64_exp :: "real \<Rightarrow> int" where
  "f64_exp a = max \<lfloor>log 2 a\<rfloor> (- 1022)"

definition f64_ulp :: "real \<Rightarrow> real" where
  "f64_ulp a = 2 powi (f64_exp a - 52)"

definition f64_round :: "real \<Rightarrow> real" where
  "f64_round x = (if x = 0 then 0
     else sgn x * (of_int (rne (\<bar>x\<bar> / f64_ulp \<bar>x\<bar>)) * f64_ulp \<bar>x\<bar>))"

fun to_double :: "fp \<Rightarrow> fp" where
  "to_double (Fin x) =
     (if 2 ^ 1024 \<le> f64_round x then PInf
      else if f64_round x \<le> - (2 ^ 1024) then MInf
      else Fin (f64_round x))"
| "to_double a = a"

text \<open>The product \<^verbatim>\<open>a * b\<close> of two doubles, as the source computes it.\<close>

definition dbl_mul :: "fp \<Rightarrow> fp \<Rightarrow> fp" where
  "dbl_mul a b = to_double (fp_mul a b)"

section \<open>Errors\<close>

text \<open>
  The source guards its functions with the macro \<^verbatim>\<open>ensure(condition, message)\<close> of
  \<^verbatim>\<open>common.h\<close>, which is not among the sources.
  Modelled from the spec: the macro \<^verbatim>\<open>ensure\<close>; a failure inside the core is not
  recoverable for the current invocation and surfaces as an error. The error keeps the
  message of the failed \<^verbatim>\<open>ensure\<close>. What C leaves undefined is an error of the model
  too: \<open>OutOfBounds\<close> for an access outside a buffer, \<open>Uninitialised\<close> for the read
  of a buffer that was never written, \<open>NoReturn\<close> for a recursion without end,
  \<open>Overflow\<close> for the conversion of a double to an integer type that cannot hold it.
\<close>

datatype error = Ensure string | OutOfBounds | Uninitialised | NoReturn | Overflow

section \<open>The data cube\<close>

text \<open>
  The C structure holds the payload as raw bytes together with the FITS code
  \<^verbatim>\<open>data_type\<close> that says how to read them. The model holds the payload as a tagged list
  of values; \<^verbatim>\<open>data_type\<close> and \<^verbatim>\<open>word_size\<close> are read off the tag, \<^verbatim>\<open>data_size\<close> is the
  length of the list and \<^verbatim>\<open>header_size\<close> the length of the header.
\<close>

datatype payload =
    F32 "fp list" | F64 "fp list"
  | U8 "int list" | I16 "int list" | I32 "int list" | I64 "int list"

record DataCube =
  header :: string
  dimension :: nat
  axis_size :: "nat list"
  data :: payload

fun payload_type :: "payload \<Rightarrow> int" where
  "payload_type (F32 d) = - 32"
| "payload_type (F64 d) = - 64"
| "payload_type (U8 d) = 8"
| "payload_type (I16 d) = 16"
| "payload_type (I32 d) = 32"
| "payload_type (I64 d) = 64"

definition data_type :: "DataCube \<Rightarrow> int" where
  "data_type c = payload_type (data c)"

text \<open>The pixels of a floating-point payload (none for an integer payload).\<close>

fun flts :: "payload \<Rightarrow> fp list" where
  "flts (F32 d) = d"
| "flts (F64 d) = d"
| "flts p = []"

text \<open>The pixels of an integer payload (none for a floating-point payload).\<close>

fun ints :: "payload \<Rightarrow> int list" where
  "ints (U8 d) = d"
| "ints (I16 d) = d"
| "ints (I32 d) = d"
| "ints (I64 d) = d"
| "ints p = []"

text \<open>The same kind of payload with other pixel values.\<close>

fun with_ints :: "payload \<Rightarrow> int list \<Rightarrow> payload" where
  "with_ints (U8 d) m = U8 m"
| "with_ints (I16 d) m = I16 m"
| "with_ints (I32 d) m = I32 m"
| "with_ints (I64 d) m = I64 m"
| "with_ints p m = p"

fun with_flts :: "payload \<Rightarrow> fp list \<Rightarrow> payload" where
  "with_flts (F32 d) m = F32 m"
| "with_flts (F64 d) m = F64 m"
| "with_flts p m = p"

definition data_size :: "DataCube \<Rightarrow> nat" where
  "data_size c = length (flts (data c)) + length (ints (data c))"

text \<open>
  The invariant of a cube that \<^verbatim>\<open>DataCube_blank\<close> and \<^verbatim>\<open>DataCube_load\<close> establish: four
  axis sizes, as many pixels as the first three axes span, and single-precision pixels
  in a single-precision payload.
\<close>

definition wf_cube :: "DataCube \<Rightarrow> bool" where
  "wf_cube c = (length (axis_size c) = 4
     \<and> data_size c = axis_size c ! 0 * axis_size c ! 1 * axis_size c ! 2
     \<and> (data_type c = - 32 \<longrightarrow> list_all is_float (flts (data c))))"

text \<open>\<^verbatim>\<open>DataCube_get_index\<close>: the position of pixel \<open>(x, y, z)\<close> in the payload.\<close>

definition DataCube_get_index :: "DataCube \<Rightarrow> nat \<Rightarrow> nat \<Rightarrow> nat \<Rightarrow> nat" where
  "DataCube_get_index this x y z = x + axis_size this ! 0 * (y + axis_size this ! 1 * z)"

section \<open>Masking pixels above a threshold\<close>

text \<open>
  The loop of \<^verbatim>\<open>DataCube_mask\<close> and \<^verbatim>\<open>DataCube_mask_32\<close>: both pointers start behind
  the last element of their buffer and step down together, once per data pixel;
  \<open>n\<close> is the number of data pixels still to visit. The mask entry is set to 1 where
  the data pixel is above \<open>tp\<close> or below \<open>tn\<close>.
\<close>

fun mask_loop :: "fp \<Rightarrow> fp \<Rightarrow> fp list \<Rightarrow> int list \<Rightarrow> nat \<Rightarrow> int list" where
  "mask_loop tp tn d m 0 = m"
| "mask_loop tp tn d m (Suc i) =
     mask_loop tp tn d
       (if fp_less tp (d ! i) \<or> fp_less (d ! i) tn
        then m[length m - length d + i := 1] else m) i"

text \<open>
  The thresholds the loop compares with: for a single-precision cube the source narrows
  them first (\<^verbatim>\<open>const float thresh_p = threshold; const float thresh_n = -threshold;\<close>).
\<close>

definition thresh_pos :: "DataCube \<Rightarrow> fp \<Rightarrow> fp" where
  "thresh_pos this threshold =
     (if data_type this = - 32 then to_float threshold else threshold)"

definition thresh_neg :: "DataCube \<Rightarrow> fp \<Rightarrow> fp" where
  "thresh_neg this threshold =
     (if data_type this = - 32 then to_float (fp_neg threshold) else fp_neg threshold)"

definition same_axes :: "DataCube \<Rightarrow> DataCube \<Rightarrow> bool" where
  "same_axes a b = (axis_size a ! 0 = axis_size b ! 0
     \<and> axis_size a ! 1 = axis_size b ! 1 \<and> axis_size a ! 2 = axis_size b ! 2)"

definition mask_pixels :: "DataCube \<Rightarrow> DataCube \<Rightarrow> fp \<Rightarrow> error + DataCube" where
  "mask_pixels this maskCube threshold =
     (if data_size maskCube < data_size this then Inl OutOfBounds
      else Inr (maskCube\<lparr>data := with_ints (data maskCube)
        (mask_loop (thresh_pos this threshold) (thresh_neg this threshold)
           (flts (data this)) (ints (data maskCube)) (data_size this))\<rparr>))"

definition DataCube_mask :: "DataCube \<Rightarrow> DataCube \<Rightarrow> fp \<Rightarrow> error + DataCube" where
  "DataCube_mask this maskCube threshold =
     (if \<not> (data_type this = - 32 \<or> data_type this = - 64)
      then Inl (Ensure ''Data cube must be of floating-point type.'')
      else if \<not> (data_type maskCube = 8 \<or> data_type maskCube = 16
                \<or> data_type maskCube = 32 \<or> data_type maskCube = 64)
      then Inl (Ensure ''Mask cube must be of integer type.'')
      else if \<not> same_axes this maskCube
      then Inl (Ensure ''Data cube and mask cube have different sizes.'')
      else if \<not> fp_less (Fin 0) threshold
      then Inl (Ensure ''Negative threshold provided.'')
      else mask_pixels this maskCube threshold)"

text \<open>The same for 32-bit mask cubes.\<close>

definition DataCube_mask_32 :: "DataCube \<Rightarrow> DataCube \<Rightarrow> fp \<Rightarrow> error + DataCube" where
  "DataCube_mask_32 this maskCube threshold =
     (if \<not> (data_type this = - 32 \<or> data_type this = - 64)
      then Inl (Ensure ''Data cube must be of floating-point type.'')
      else if \<not> data_type maskCube = 32
      then Inl (Ensure ''Mask cube must be of 32-bit integer type.'')
      else if \<not> same_axes this maskCube
      then Inl (Ensure ''Data cube and mask cube have different sizes.'')
      else if \<not> fp_less (Fin 0) threshold
      then Inl (Ensure ''Threshold must be positive.'')
      else mask_pixels this maskCube threshold)"

subsection \<open>Example cubes\<close>

text \<open>
  A single-precision cube of three pixels and a 32-bit mask of the same shape, and a
  single-precision cube whose only pixel is the float next above 1, with a threshold
  (a double) that lies just below that pixel and is not a float itself.
\<close>

definition ex_data :: DataCube where
  "ex_data = \<lparr>header = [], dimension = 1, axis_size = [3, 1, 1, 1],
     data = F32 [Fin 5, NaN, Fin (- 7)]\<rparr>"

definition ex_mask :: DataCube where
  "ex_mask = \<lparr>header = [], dimension = 1, axis_size = [3, 1, 1, 1], data = I32 [0, 1, 0]\<rparr>"

definition c4_pixel :: real where
  "c4_pixel = 1 + 1 / 2 ^ 23"

definition c4_level :: real where
  "c4_level = 1 + 1 / 2 ^ 23 - 1 / 2 ^ 40"

definition c4_data :: DataCube where
  "c4_data = \<lparr>header = [], dimension = 1, axis_size = [1, 1, 1, 1],
     data = F32 [Fin c4_pixel]\<rparr>"

definition c4_mask :: DataCube where
  "c4_mask = \<lparr>header = [], dimension = 1, axis_size = [1, 1, 1, 1], data = I32 [0]\<rparr>"

section \<open>The header\<close>

text \<open>
  The header is the flat character buffer of the source; \<^verbatim>\<open>header_size\<close> is its length.
  The constants of \<^verbatim>\<open>DataCube.h\<close>, which is not among the sources, are
  modelled from the spec: a record has 80 characters, an 8-character keyword, the value
  field in the last 70 characters, a block has 36 records (2880 characters), and numbers
  are right-justified in a field of width 20.
\<close>

abbreviation FITS_HEADER_BLOCK_SIZE :: nat where "FITS_HEADER_BLOCK_SIZE \<equiv> 2880"
abbreviation FITS_HEADER_LINE_SIZE :: nat where "FITS_HEADER_LINE_SIZE \<equiv> 80"
abbreviation FITS_HEADER_LINES :: nat where "FITS_HEADER_LINES \<equiv> 36"
abbreviation FITS_HEADER_KEYWORD_SIZE :: nat where "FITS_HEADER_KEYWORD_SIZE \<equiv> 8"
abbreviation FITS_HEADER_KEY_SIZE :: nat where "FITS_HEADER_KEY_SIZE \<equiv> 10"
abbreviation FITS_HEADER_VALUE_SIZE :: nat where "FITS_HEADER_VALUE_SIZE \<equiv> 70"
abbreviation FITS_HEADER_FIXED_WIDTH :: nat where "FITS_HEADER_FIXED_WIDTH \<equiv> 20"

abbreviation SPACE :: char where "SPACE \<equiv> CHR '' ''"
abbreviation QUOTE :: char where "QUOTE \<equiv> CHR 0x27"
abbreviation NUL :: char where "NUL \<equiv> CHR 0x00"

text \<open>
  A key is a C string and a \<open>string\<close> of the model that holds no NUL, so that
  \<^verbatim>\<open>strlen(key)\<close> is its length. \<^verbatim>\<open>strncmp(ptr, key, strlen(key)) == 0\<close> on the rest of
  the buffer from \<^verbatim>\<open>ptr\<close>: the comparison stops at the first difference, and runs off
  the buffer when the buffer ends inside a matching prefix of the key.
\<close>

definition strncmp_eq :: "string \<Rightarrow> string \<Rightarrow> error + bool" where
  "strncmp_eq rest key =
     (if length key \<le> length rest then Inr (take (length key) rest = key)
      else if take (length rest) key = rest then Inl OutOfBounds
      else Inr False)"

text \<open>
  The loop of \<^verbatim>\<open>DataCube_chkhd\<close>; \<open>rest\<close> is the buffer from \<^verbatim>\<open>ptr\<close> on and \<open>line\<close>
  the number of the record at \<^verbatim>\<open>ptr\<close>.
\<close>

function chkhd_loop :: "string \<Rightarrow> string \<Rightarrow> nat \<Rightarrow> error + nat" where
  "chkhd_loop rest key line =
     (if rest = [] then Inr 0
      else case strncmp_eq rest key of
        Inl e \<Rightarrow> Inl e
      | Inr True \<Rightarrow>
          if length rest \<le> length key then Inl OutOfBounds
          else if rest ! length key = SPACE \<or> rest ! length key = CHR ''=''
          then Inr line
          else chkhd_loop (drop FITS_HEADER_LINE_SIZE rest) key (line + 1)
      | Inr False \<Rightarrow> chkhd_loop (drop FITS_HEADER_LINE_SIZE rest) key (line + 1))"
  by pat_completeness auto
termination
  by (relation "measure (\<lambda>(rest, key, line). length rest)") auto

declare chkhd_loop.simps [simp del]

definition DataCube_chkhd :: "DataCube \<Rightarrow> string \<Rightarrow> error + nat" where
  "DataCube_chkhd this key =
     (if \<not> (0 < length key \<and> length key \<le> FITS_HEADER_KEYWORD_SIZE)
      then Inl (Ensure ''Illegal FITS header keyword: %s.'')
      else chkhd_loop (header this) key 1)"

text \<open>
  The loop of \<^verbatim>\<open>DataCube_gethd_raw\<close>. The result is the 70 characters copied into the
  caller's buffer, or \<open>None\<close> where the source returns 1 and leaves the buffer as it was.
\<close>

function gethd_loop :: "string \<Rightarrow> string \<Rightarrow> error + string option" where
  "gethd_loop rest key =
     (if rest = [] then Inr None
      else case strncmp_eq rest key of
        Inl e \<Rightarrow> Inl e
      | Inr True \<Rightarrow>
          if length rest < FITS_HEADER_LINE_SIZE then Inl OutOfBounds
          else Inr (Some (take FITS_HEADER_VALUE_SIZE (drop FITS_HEADER_KEY_SIZE rest)))
      | Inr False \<Rightarrow> gethd_loop (drop FITS_HEADER_LINE_SIZE rest) key)"
  by pat_completeness auto
termination
  by (relation "measure (\<lambda>(rest, key). length rest)") auto

declare gethd_loop.simps [simp del]

definition DataCube_gethd_raw :: "DataCube \<Rightarrow> string \<Rightarrow> error + string option" where
  "DataCube_gethd_raw this key = gethd_loop (header this) key"

text \<open>The C string that starts a buffer: the characters before the first NUL.\<close>

definition c_string :: "string \<Rightarrow> string" where
  "c_string buffer = takeWhile (\<lambda>c. c \<noteq> NUL) buffer"

subsection \<open>The C library\<close>

text \<open>\<^verbatim>\<open>isspace\<close> and \<^verbatim>\<open>isdigit\<close> in the C locale.\<close>

definition isspace :: "char \<Rightarrow> bool" where
  "isspace c = (c = SPACE \<or> (9 \<le> (of_char c :: nat) \<and> (of_char c :: nat) \<le> 13))"

definition isdigit :: "char \<Rightarrow> bool" where
  "isdigit c = (48 \<le> (of_char c :: nat) \<and> (of_char c :: nat) \<le> 57)"

definition digit_value :: "char \<Rightarrow> nat" where
  "digit_value c = of_char c - 48"

definition LONG_MAX :: int where
  "LONG_MAX = 2 ^ 63 - 1"

definition LONG_MIN :: int where
  "LONG_MIN = - (2 ^ 63)"

text \<open>
  \<^verbatim>\<open>strtol(s, NULL, 10)\<close> for a 64-bit \<^verbatim>\<open>long\<close>: white space, an optional sign, then
  decimal digits up to the first other character; no digits give 0, a value out of
  range gives the nearest bound.
\<close>

definition strtol :: "string \<Rightarrow> int" where
  "strtol s =
     (let s1 = dropWhile isspace s;
          neg = (s1 \<noteq> [] \<and> hd s1 = CHR ''-'');
          s2 = (if s1 \<noteq> [] \<and> (hd s1 = CHR ''-'' \<or> hd s1 = CHR ''+'') then tl s1 else s1);
          n = foldl (\<lambda>a c. 10 * a + int (digit_value c)) 0 (takeWhile isdigit s2);
          v = (if neg then - n else n)
      in if LONG_MAX < v then LONG_MAX else if v < LONG_MIN then LONG_MIN else v)"

text \<open>The decimal digits of a natural number, and \<^verbatim>\<open>snprintf\<close> with \<^verbatim>\<open>"%20ld"\<close>.\<close>

function digits_of :: "int \<Rightarrow> string" where
  "digits_of n =
     (if n < 10 then [char_of (48 + n)]
      else digits_of (n div 10) @ [char_of (48 + n mod 10)])"
  by pat_completeness auto
termination
proof (relation "measure nat")
  show "wf (measure nat)" by simp
next
  fix n :: int assume "\<not> n < 10"
  then have "n div 10 < n" by simp
  moreover from \<open>\<not> n < 10\<close> have "0 < n" by simp
  ultimately show "(n div 10, n) \<in> measure nat" by simp
qed

declare digits_of.simps [simp del]

definition show_int :: "int \<Rightarrow> string" where
  "show_int v = (if v < 0 then CHR ''-'' # digits_of (- v) else digits_of v)"

definition snprintf_20ld :: "int \<Rightarrow> string" where
  "snprintf_20ld v = replicate (FITS_HEADER_FIXED_WIDTH - length (show_int v)) SPACE @ show_int v"

text \<open>
  The conversions of doubles to and from text belong to the C library and are parameters
  of the model, together with the choice of the filter size for the Gaussian filter,
  \<^verbatim>\<open>optimal_filter_size_dbl\<close> of \<^verbatim>\<open>statistics_dbl.c\<close>, which is not among the sources and
  which the spec describes only approximately: \<open>snprintf_E v\<close> are the characters that
  \<^verbatim>\<open>snprintf\<close> writes for \<^verbatim>\<open>"%20.11E"\<close>, \<open>strtod s\<close> is the value of \<^verbatim>\<open>strtod(s, NULL)\<close>,
  \<open>optimal_filter_size_dbl sigma\<close> is the pair of the filter radius and the number of
  iterations, and \<open>pow x y\<close> is the value of \<^verbatim>\<open>pow(x, y)\<close> of the mathematical library.
\<close>

record extern =
  snprintf_E :: "fp \<Rightarrow> string"
  strtod :: "string \<Rightarrow> fp"
  optimal_filter_size_dbl :: "fp \<Rightarrow> nat \<times> nat"
  pow :: "fp \<Rightarrow> fp \<Rightarrow> fp"

subsection \<open>Reading header values\<close>

definition DataCube_gethd_int :: "DataCube \<Rightarrow> string \<Rightarrow> error + int" where
  "DataCube_gethd_int this key =
     (case DataCube_gethd_raw this key of
        Inl e \<Rightarrow> Inl e
      | Inr None \<Rightarrow> Inr 0
      | Inr (Some buffer) \<Rightarrow> Inr (strtol (c_string buffer)))"

definition DataCube_gethd_flt :: "extern \<Rightarrow> DataCube \<Rightarrow> string \<Rightarrow> error + fp" where
  "DataCube_gethd_flt ext this key =
     (case DataCube_gethd_raw this key of
        Inl e \<Rightarrow> Inl e
      | Inr None \<Rightarrow> Inr NaN
      | Inr (Some buffer) \<Rightarrow> Inr (strtod ext (c_string buffer)))"

text \<open>
  \<^verbatim>\<open>DataCube_gethd_bool\<close> looks at the first character that is not a space, in the 70
  characters of the value followed by the terminating NUL.
\<close>

definition DataCube_gethd_bool :: "DataCube \<Rightarrow> string \<Rightarrow> error + bool" where
  "DataCube_gethd_bool this key =
     (case DataCube_gethd_raw this key of
        Inl e \<Rightarrow> Inl e
      | Inr None \<Rightarrow> Inr False
      | Inr (Some buffer) \<Rightarrow>
          (case dropWhile (\<lambda>c. c = SPACE) (buffer @ [NUL]) of
             [] \<Rightarrow> Inr False
           | c # cs \<Rightarrow> Inr (c = CHR ''T'')))"

text \<open>
  The characters from behind the opening quotation mark to the closing one, which is the
  first quotation mark that no second one follows directly; a pair of quotation marks is
  kept as it is. \<open>None\<close> where the source finds no closing quotation mark.
\<close>

fun quoted :: "string \<Rightarrow> string option" where
  "quoted [] = None"
| "quoted [c] = (if c = QUOTE then Some [] else None)"
| "quoted (c # d # r) =
     (if c = QUOTE then
        (if d = QUOTE then map_option (\<lambda>s. c # d # s) (quoted r) else Some [])
      else map_option (\<lambda>s. c # s) (quoted (d # r)))"

text \<open>
  \<^verbatim>\<open>DataCube_gethd_str\<close>: \<open>Some value\<close> where the source returns 0 and writes the value,
  \<open>None\<close> where it returns 1 and leaves the destination untouched.
\<close>

definition DataCube_gethd_str :: "DataCube \<Rightarrow> string \<Rightarrow> error + string option" where
  "DataCube_gethd_str this key =
     (case DataCube_gethd_raw this key of
        Inl e \<Rightarrow> Inl e
      | Inr None \<Rightarrow> Inr None
      | Inr (Some buffer) \<Rightarrow>
          (case dropWhile (\<lambda>c. c \<noteq> QUOTE) (c_string buffer) of
             [] \<Rightarrow> Inl (Ensure ''FITS header entry is not a string.'')
           | q # r \<Rightarrow>
               (case quoted r of
                  None \<Rightarrow> Inl (Ensure ''Unbalanced quotation marks in FITS header entry.'')
                | Some v \<Rightarrow> Inr (Some v))))"

subsection \<open>Writing header values\<close>

text \<open>\<^verbatim>\<open>memcpy(header + off, s, strlen(s))\<close>.\<close>

definition write_at :: "string \<Rightarrow> nat \<Rightarrow> string \<Rightarrow> error + string" where
  "write_at h off s =
     (if off + length s \<le> length h then Inr (take off h @ s @ drop (off + length s) h)
      else Inl OutOfBounds)"

text \<open>
  \<^verbatim>\<open>DataCube_puthd_raw\<close>; \<open>buffer\<close> holds the 70 characters of the value. The result is
  the cube and the value returned: 0 when an entry was overwritten, 1 when a new one was
  created.
\<close>

definition DataCube_puthd_raw :: "DataCube \<Rightarrow> string \<Rightarrow> string \<Rightarrow> error + DataCube \<times> int" where
  "DataCube_puthd_raw this key buffer =
     (if \<not> (0 < length key \<and> length key \<le> FITS_HEADER_KEYWORD_SIZE)
      then Inl (Ensure ''Illegal length of header keyword.'')
      else case DataCube_chkhd this key of
        Inl e \<Rightarrow> Inl e
      | Inr line \<Rightarrow>
          if 0 < line then
            (case write_at (header this)
                    ((line - 1) * FITS_HEADER_LINE_SIZE + FITS_HEADER_KEY_SIZE) buffer of
               Inl e \<Rightarrow> Inl e
             | Inr h \<Rightarrow> Inr (this\<lparr>header := h\<rparr>, 0))
          else
            (case DataCube_chkhd this ''END'' of
               Inl e \<Rightarrow> Inl e
             | Inr line \<Rightarrow>
                 if \<not> 0 < line
                 then Inl (Ensure ''No END keyword found in header of DataCube object.'')
                 else
                   (let h0 = (if line mod FITS_HEADER_LINES = 0
                              then header this @ replicate FITS_HEADER_BLOCK_SIZE SPACE
                              else header this)
                    in case write_at h0 ((line - 1) * FITS_HEADER_LINE_SIZE) key of
                      Inl e \<Rightarrow> Inl e
                    | Inr h1 \<Rightarrow>
                   (case write_at h1
                      ((line - 1) * FITS_HEADER_LINE_SIZE + FITS_HEADER_KEYWORD_SIZE) ''='' of
                      Inl e \<Rightarrow> Inl e
                    | Inr h2 \<Rightarrow>
                   (case write_at h2
                      ((line - 1) * FITS_HEADER_LINE_SIZE + FITS_HEADER_KEY_SIZE) buffer of
                      Inl e \<Rightarrow> Inl e
                    | Inr h3 \<Rightarrow>
                   (case write_at h3 (line * FITS_HEADER_LINE_SIZE) ''END'' of
                      Inl e \<Rightarrow> Inl e
                    | Inr h4 \<Rightarrow> Inr (this\<lparr>header := h4\<rparr>, 1)))))))"

text \<open>A value buffer: the text followed by spaces up to 70 characters.\<close>

definition value_buffer :: "string \<Rightarrow> string" where
  "value_buffer s = s @ replicate (FITS_HEADER_VALUE_SIZE - length s) SPACE"

definition DataCube_puthd_int :: "DataCube \<Rightarrow> string \<Rightarrow> int \<Rightarrow> error + DataCube \<times> int" where
  "DataCube_puthd_int this key v =
     (let size = length (snprintf_20ld v)
      in if \<not> (0 < size \<and> size \<le> FITS_HEADER_FIXED_WIDTH)
         then Inl (Ensure ''Creation of new header entry failed for unknown reasons.'')
         else DataCube_puthd_raw this key (value_buffer (snprintf_20ld v)))"

definition DataCube_puthd_flt :: "extern \<Rightarrow> DataCube \<Rightarrow> string \<Rightarrow> fp \<Rightarrow> error + DataCube \<times> int" where
  "DataCube_puthd_flt ext this key v =
     (let size = length (snprintf_E ext v)
      in if \<not> (0 < size \<and> size \<le> FITS_HEADER_FIXED_WIDTH)
         then Inl (Ensure ''Creation of new header entry failed for unknown reasons.'')
         else DataCube_puthd_raw this key (value_buffer (snprintf_E ext v)))"

definition DataCube_puthd_bool :: "DataCube \<Rightarrow> string \<Rightarrow> bool \<Rightarrow> error + DataCube \<times> int" where
  "DataCube_puthd_bool this key v =
     DataCube_puthd_raw this key
       (value_buffer (replicate (FITS_HEADER_FIXED_WIDTH - 1) SPACE
          @ [if v then CHR ''T'' else CHR ''F'']))"

definition DataCube_puthd_str :: "DataCube \<Rightarrow> string \<Rightarrow> string \<Rightarrow> error + DataCube \<times> int" where
  "DataCube_puthd_str this key v =
     (if \<not> length v \<le> FITS_HEADER_VALUE_SIZE - 2
      then Inl (Ensure ''String too long for FITS header line.'')
      else DataCube_puthd_raw this key (value_buffer (QUOTE # v @ [QUOTE])))"

subsection \<open>Deleting header entries\<close>

text \<open>
  The loop of \<^verbatim>\<open>DataCube_delhd\<close>: the record at \<open>line\<close> is removed by moving the rest
  of the header up, the last record is filled with spaces, and the key is looked up
  again. The loop runs for as long as the key is found, which can be for ever; \<open>None\<close>
  is the run that never ends.
\<close>

definition delete_line :: "string \<Rightarrow> nat \<Rightarrow> string" where
  "delete_line h line =
     take ((line - 1) * FITS_HEADER_LINE_SIZE) h @ drop (line * FITS_HEADER_LINE_SIZE) h
       @ replicate FITS_HEADER_LINE_SIZE SPACE"

partial_function (option) delhd_loop :: "string \<Rightarrow> string \<Rightarrow> nat \<Rightarrow> (error + string) option" where
  "delhd_loop h key line =
     (if line = 0 then Some (Inr h)
      else if length h < line * FITS_HEADER_LINE_SIZE then Some (Inl OutOfBounds)
      else case chkhd_loop (delete_line h line) key 1 of
        Inl e \<Rightarrow> Some (Inl e)
      | Inr l \<Rightarrow> delhd_loop (delete_line h line) key l)"

text \<open>
  \<^verbatim>\<open>DataCube_delhd\<close>: the cube and the value returned, 1 when the key was not found and
  0 otherwise.
\<close>

definition DataCube_delhd :: "DataCube \<Rightarrow> string \<Rightarrow> (error + DataCube \<times> int) option" where
  "DataCube_delhd this key =
     (case DataCube_chkhd this key of
        Inl e \<Rightarrow> Some (Inl e)
      | Inr line \<Rightarrow>
          if line = 0 then Some (Inr (this, 1))
          else case delhd_loop (header this) key line of
            None \<Rightarrow> None
          | Some (Inl e) \<Rightarrow> Some (Inl e)
          | Some (Inr h) \<Rightarrow>
              (case DataCube_chkhd (this\<lparr>header := h\<rparr>) ''END'' of
                 Inl e \<Rightarrow> Some (Inl e)
               | Inr line \<Rightarrow>
                   if line = 0 then Some (Inl (Ensure ''END keyword missing from FITS header.''))
                   else
                     (let last_line = length h div FITS_HEADER_LINE_SIZE;
                          empty_blocks = (last_line - line) div FITS_HEADER_LINES
                      in Some (Inr (this\<lparr>header :=
                           take (length h - empty_blocks * FITS_HEADER_BLOCK_SIZE) h\<rparr>, 0)))))"

subsection \<open>The header as a sequence of records\<close>

text \<open>
  The records of a header, and the lookup as the spec words it: the first record whose
  keyword field begins with the key, ignoring any record whose byte 8 is neither a space
  nor an equals sign; the result is the 1-based position, 0 when there is none.
\<close>

function records :: "string \<Rightarrow> string list" where
  "records h =
     (if h = [] then []
      else take FITS_HEADER_LINE_SIZE h # records (drop FITS_HEADER_LINE_SIZE h))"
  by pat_completeness auto
termination
  by (relation "measure length") auto

declare records.simps [simp del]

fun first_pos :: "('a \<Rightarrow> bool) \<Rightarrow> 'a list \<Rightarrow> nat" where
  "first_pos P [] = 0"
| "first_pos P (x # xs) =
     (if P x then 1 else case first_pos P xs of 0 \<Rightarrow> 0 | Suc n \<Rightarrow> Suc (Suc n))"

definition begins_with :: "string \<Rightarrow> string \<Rightarrow> bool" where
  "begins_with key r = (take (length key) r = key)"

definition spec_lookup :: "string \<Rightarrow> string \<Rightarrow> nat" where
  "spec_lookup h key =
     first_pos (\<lambda>r. begins_with key r \<and> (r ! 8 = SPACE \<or> r ! 8 = CHR ''='')) (records h)"

text \<open>What \<^verbatim>\<open>DataCube_chkhd\<close> tests: the key, directly followed by a space or an equals sign.\<close>

definition key_delimited :: "string \<Rightarrow> string \<Rightarrow> bool" where
  "key_delimited key r =
     (begins_with key r \<and> (r ! length key = SPACE \<or> r ! length key = CHR ''=''))"

text \<open>The value field of a record.\<close>

definition value_field :: "string \<Rightarrow> string" where
  "value_field r = take FITS_HEADER_VALUE_SIZE (drop FITS_HEADER_KEY_SIZE r)"

subsection \<open>Example header\<close>

definition hdr_line :: "string \<Rightarrow> string" where
  "hdr_line s = s @ replicate (FITS_HEADER_LINE_SIZE - length s) SPACE"

text \<open>
  A header of one block with the records \<^verbatim>\<open>NAXIS1\<close>, a \<^verbatim>\<open>HISTORY\<close> line with text from
  byte 8 on, \<^verbatim>\<open>BITPIX\<close> and \<^verbatim>\<open>END\<close>.
\<close>

definition example_header :: string where
  "example_header =
     hdr_line ''NAXIS1  =                    5''
     @ hdr_line ''HISTORY x   7''
     @ hdr_line ''BITPIX  =                  -32''
     @ hdr_line ''END''
     @ replicate (32 * FITS_HEADER_LINE_SIZE) SPACE"

text \<open>
  A stand-in for the parameters of the model, for the examples: it formats every double
  as the text of 1.0, which is the only double that \<^verbatim>\<open>DataCube_blank\<close> writes, reads every
  text as 1.0, chooses one iteration of a filter of radius 1, and raises a positive
  base to a finite power without rounding.
\<close>

definition example_extern :: extern where
  "example_extern = \<lparr>snprintf_E = (\<lambda>v. ''   1.00000000000E+00''),
     strtod = (\<lambda>s. Fin 1), optimal_filter_size_dbl = (\<lambda>sigma. (1, 1)),
     pow = (\<lambda>x y. case x of
              Fin a \<Rightarrow> (case y of Fin b \<Rightarrow> if 0 < a then Fin (a powr b) else NaN | v \<Rightarrow> NaN)
            | v \<Rightarrow> NaN)\<rparr>"

definition example_cube :: DataCube where
  "example_cube = \<lparr>header = example_header, dimension = 1, axis_size = [5, 1, 1, 1],
     data = F32 [Fin 0, Fin 0, Fin 0, Fin 0, Fin 0]\<rparr>"

section \<open>Statistics and filters\<close>

text \<open>
  The numeric kernels (\<^verbatim>\<open>statistics_flt.c\<close>, \<^verbatim>\<open>statistics_dbl.c\<close>) are not among the
  sources. Their arithmetic is exact in the model; a single-precision kernel stores its
  results narrowed by \<open>to_float\<close>.
\<close>

fun fp_add :: "fp \<Rightarrow> fp \<Rightarrow> fp" where
  "fp_add (Fin a) (Fin b) = Fin (a + b)"
| "fp_add NaN b = NaN"
| "fp_add a NaN = NaN"
| "fp_add (Fin a) b = b"
| "fp_add a (Fin b) = a"
| "fp_add MInf MInf = MInf"
| "fp_add PInf PInf = PInf"
| "fp_add MInf PInf = NaN"
| "fp_add PInf MInf = NaN"

text \<open>Division of a double by a positive count.\<close>

fun fp_div_count :: "fp \<Rightarrow> nat \<Rightarrow> fp" where
  "fp_div_count (Fin a) n = Fin (a / real n)"
| "fp_div_count a n = a"

fun the_fin :: "fp \<Rightarrow> real" where
  "the_fin (Fin a) = a"
| "the_fin a = 0"

text \<open>The elements at the positions \<open>0, c, 2c, \<dots>\<close> of a list.\<close>

definition every_nth :: "'a list \<Rightarrow> nat \<Rightarrow> 'a list" where
  "every_nth xs c = map (\<lambda>i. xs ! (i * c)) [0..<(length xs + c - 1) div c]"

text \<open>
  Modelled from the spec: \<^verbatim>\<open>std_dev_val_flt\<close> and \<^verbatim>\<open>std_dev_val_dbl\<close>, the standard
  deviation about a value \<open>v\<close> with cadence \<open>c\<close> and flux range \<open>r\<close>. Over the elements
  at the multiples of \<open>c\<close>, the squared deviations from \<open>v\<close> of the finite values \<open>x\<close> are
  accumulated: of all of them for \<open>r = 0\<close>, of those with \<open>x \<le> v\<close> for negative \<open>r\<close>, of
  those with \<open>x \<ge> v\<close> for positive \<open>r\<close>. The result is the square root of the sum divided
  by the number \<open>N\<close> of included values, and NaN for \<open>N = 0\<close>.
\<close>

definition std_dev_val :: "fp list \<Rightarrow> real \<Rightarrow> nat \<Rightarrow> int \<Rightarrow> fp" where
  "std_dev_val d v cadence flux_range =
     (let xs = filter (\<lambda>x. flux_range = 0 \<or> (flux_range < 0 \<and> x \<le> v)
                          \<or> (0 < flux_range \<and> v \<le> x))
                 (map the_fin (filter is_finite (every_nth d cadence)))
      in if xs = [] then NaN
         else Fin (sqrt (sum_list (map (\<lambda>x. (x - v)\<^sup>2) xs) / real (length xs))))"

definition DataCube_stat_std :: "DataCube \<Rightarrow> real \<Rightarrow> nat \<Rightarrow> int \<Rightarrow> error + fp" where
  "DataCube_stat_std this v cadence flux_range =
     (if \<not> (data_type this = - 32 \<or> data_type this = - 64)
      then Inl (Ensure ''Cannot evaluate standard deviation for integer array.'')
      else Inr (std_dev_val (flts (data this)) v (if cadence = 0 then 1 else cadence) flux_range))"

text \<open>Modelled from the spec: \<^verbatim>\<open>contains_nan_flt\<close> and \<^verbatim>\<open>contains_nan_dbl\<close>.\<close>

definition contains_nan :: "fp list \<Rightarrow> bool" where
  "contains_nan xs = list_ex is_nan xs"

text \<open>
  Modelled from the spec: \<^verbatim>\<open>filter_boxcar_1d_flt\<close> and \<^verbatim>\<open>filter_boxcar_1d_dbl\<close>, the
  1-D boxcar filter of half-width \<open>radius\<close>. It is the symmetric moving average of
  width \<open>2 * radius + 1\<close> over the vector padded with \<open>radius\<close> zeros at both ends; NaNs
  are replaced with 0 before filtering when the caller found a NaN in the input.
  \<open>store\<close> is the narrowing of the result: \<open>to_float\<close> for the single-precision kernel,
  the identity for the double-precision one.
\<close>

definition filter_boxcar_1d :: "(fp \<Rightarrow> fp) \<Rightarrow> fp list \<Rightarrow> nat \<Rightarrow> bool \<Rightarrow> fp list" where
  "filter_boxcar_1d store xs radius replace_nan =
     (let ys = (if replace_nan then map (\<lambda>x. if is_nan x then Fin 0 else x) xs else xs);
          box = replicate radius (Fin 0) @ ys @ replicate radius (Fin 0)
      in map (\<lambda>i. store (fp_div_count (foldl fp_add (Fin 0) (take (2 * radius + 1) (drop i box)))
                      (2 * radius + 1)))
           [0..<length xs])"

text \<open>
  Modelled from the spec: \<^verbatim>\<open>filter_gauss_2d_flt\<close> and \<^verbatim>\<open>filter_gauss_2d_dbl\<close>, the 2-D
  Gaussian filter of one plane, approximated by \<open>n_iter\<close> repeated boxcars of half-width
  \<open>radius\<close>, first along the rows, then along the columns.
\<close>

definition filter_gauss_2d ::
  "(fp \<Rightarrow> fp) \<Rightarrow> fp list \<Rightarrow> nat \<Rightarrow> nat \<Rightarrow> nat \<Rightarrow> nat \<Rightarrow> bool \<Rightarrow> fp list" where
  "filter_gauss_2d store plane size_x size_y n_iter radius replace_nan =
     (let pass = (\<lambda>v. ((\<lambda>w. filter_boxcar_1d store w radius replace_nan) ^^ n_iter) v);
          rows = concat (map (\<lambda>y. pass (take size_x (drop (y * size_x) plane))) [0..<size_y]);
          cols = map (\<lambda>x. pass (map (\<lambda>y. rows ! (x + size_x * y)) [0..<size_y])) [0..<size_x]
      in map (\<lambda>i. cols ! (i mod size_x) ! (i div size_x)) [0..<size_x * size_y])"

text \<open>The narrowing that a store into the payload of a cube performs.\<close>

definition store_of :: "DataCube \<Rightarrow> fp \<Rightarrow> fp" where
  "store_of this = (if data_type this = - 32 then to_float else (\<lambda>v. v))"

text \<open>
  \<^verbatim>\<open>DataCube_boxcar\<close>: a radius below 1 becomes 1; then every spectrum, the pixels
  \<open>(x, y, 0), (x, y, 1), \<dots>\<close>, is extracted, filtered and copied back. The spectrum of
  \<open>(x, y)\<close> is read at the indices \<open>DataCube_get_index this x y z\<close>.
\<close>

definition spectrum :: "DataCube \<Rightarrow> nat \<Rightarrow> nat \<Rightarrow> fp list" where
  "spectrum this x y =
     map (\<lambda>z. flts (data this) ! DataCube_get_index this x y z) [0..<axis_size this ! 2]"

definition DataCube_boxcar :: "DataCube \<Rightarrow> nat \<Rightarrow> error + DataCube" where
  "DataCube_boxcar this radius0 =
     (if \<not> (data_type this = - 32 \<or> data_type this = - 64)
      then Inl (Ensure ''Cannot run boxcar filter on integer array.'')
      else
        (let radius = (if radius0 < 1 then 1 else radius0);
             nx = axis_size this ! 0; ny = axis_size this ! 1; nz = axis_size this ! 2
         in if data_size this < nx * ny * nz then Inl OutOfBounds
            else Inr (this\<lparr>data := with_flts (data this)
              (map (\<lambda>i. if i < nx * ny * nz
                         then filter_boxcar_1d (store_of this)
                                (spectrum this (i mod nx) (i div nx mod ny)) radius
                                (contains_nan (spectrum this (i mod nx) (i div nx mod ny)))
                              ! (i div (nx * ny))
                         else flts (data this) ! i)
                 [0..<data_size this])\<rparr>)))"

text \<open>
  The boxcar of width 3 in the words of the spec, for comparison with
  \<^verbatim>\<open>DataCube_boxcar\<close>: the NaNs of a spectrum that holds a NaN count as 0, the spectrum is
  padded with zeros beyond both ends, and pixel \<open>z\<close> becomes the mean of the pixels
  \<open>z - 1\<close>, \<open>z\<close> and \<open>z + 1\<close>.
\<close>

definition zero_nans :: "fp list \<Rightarrow> fp list" where
  "zero_nans s = (if contains_nan s then map (\<lambda>v. if is_nan v then Fin 0 else v) s else s)"

definition padded :: "fp list \<Rightarrow> int \<Rightarrow> fp" where
  "padded s k = (if 0 \<le> k \<and> k < int (length s) then s ! nat k else Fin 0)"

definition mean_3 :: "DataCube \<Rightarrow> nat \<Rightarrow> nat \<Rightarrow> nat \<Rightarrow> fp" where
  "mean_3 this x y z =
     fp_div_count
       (fp_add (fp_add (padded (zero_nans (spectrum this x y)) (int z - 1))
                       (padded (zero_nans (spectrum this x y)) (int z)))
               (padded (zero_nans (spectrum this x y)) (int z + 1))) 3"

text \<open>
  \<^verbatim>\<open>DataCube_gaussian\<close>: the filter size is chosen by \<^verbatim>\<open>optimal_filter_size_dbl\<close>, then
  every plane of \<open>nx * ny\<close> pixels is filtered in place. A payload that is not a whole
  number of planes makes the source run off the buffer.
\<close>

definition DataCube_gaussian :: "extern \<Rightarrow> DataCube \<Rightarrow> fp \<Rightarrow> error + DataCube" where
  "DataCube_gaussian ext this sigma =
     (if \<not> (data_type this = - 32 \<or> data_type this = - 64)
      then Inl (Ensure ''Cannot run boxcar filter on integer array.'')
      else
        (let filter_radius = fst (optimal_filter_size_dbl ext sigma);
             n_iter = snd (optimal_filter_size_dbl ext sigma);
             nx = axis_size this ! 0; ny = axis_size this ! 1; size_1 = nx * ny
         in if data_size this mod size_1 \<noteq> 0 then Inl OutOfBounds
            else Inr (this\<lparr>data := with_flts (data this)
              (map (\<lambda>i. filter_gauss_2d (store_of this)
                           (take size_1 (drop (i div size_1 * size_1) (flts (data this))))
                           nx ny n_iter filter_radius
                           (contains_nan
                              (take size_1 (drop (i div size_1 * size_1) (flts (data this)))))
                         ! (i mod size_1))
                 [0..<data_size this])\<rparr>)))"

section \<open>Replacing masked pixels\<close>

text \<open>
  \<^verbatim>\<open>copysign(value, x)\<close>: the magnitude of \<open>value\<close> with the sign bit of \<open>x\<close>. The sign
  bit of a pixel is read off its value, except for a zero and for a NaN, whose values in
  the model are the same for both signs: there it is the bit \<open>stored\<close> of the pixel in
  the buffer.
\<close>

fun sign_bit :: "bool \<Rightarrow> fp \<Rightarrow> bool" where
  "sign_bit stored (Fin a) = (if a = 0 then stored else a < 0)"
| "sign_bit stored MInf = True"
| "sign_bit stored PInf = False"
| "sign_bit stored NaN = stored"

definition copysign :: "fp \<Rightarrow> bool \<Rightarrow> fp" where
  "copysign v negative = (if negative then fp_neg (fp_abs v) else fp_abs v)"

text \<open>
  \<^verbatim>\<open>DataCube_set_masked_32\<close>: both pointers step down from the end of their buffer, and
  a pixel whose mask entry is not 0 becomes \<open>copysign(value, pixel)\<close>. \<open>signs i\<close> is the
  sign bit of pixel \<open>i\<close> of the data cube as it is stored.
\<close>

definition DataCube_set_masked_32 ::
  "DataCube \<Rightarrow> (nat \<Rightarrow> bool) \<Rightarrow> DataCube \<Rightarrow> fp \<Rightarrow> error + DataCube" where
  "DataCube_set_masked_32 this signs maskCube v =
     (if \<not> (data_type this = - 32 \<or> data_type this = - 64)
      then Inl (Ensure ''Data cube must be of floating-point type.'')
      else if \<not> data_type maskCube = 32
      then Inl (Ensure ''Mask cube must be of 32-bit integer type.'')
      else if \<not> same_axes this maskCube
      then Inl (Ensure ''Data cube and mask cube have different sizes.'')
      else if data_size maskCube < data_size this then Inl OutOfBounds
      else Inr (this\<lparr>data := with_flts (data this)
        (map (\<lambda>i. if ints (data maskCube) ! (data_size maskCube - data_size this + i) \<noteq> 0
                   then store_of this
                          (copysign v (sign_bit (signs i) (flts (data this) ! i)))
                   else flts (data this) ! i)
           [0..<data_size this])\<rparr>))"

section \<open>Constructors\<close>

text \<open>A sequence of header writes, stopped by the first error.\<close>

fun run_puts :: "(DataCube \<Rightarrow> error + DataCube \<times> int) list \<Rightarrow> DataCube \<Rightarrow> error + DataCube" where
  "run_puts [] c = Inr c"
| "run_puts (f # fs) c = (case f c of Inl e \<Rightarrow> Inl e | Inr (c', r) \<Rightarrow> run_puts fs c')"

definition blank_payload :: "int \<Rightarrow> nat \<Rightarrow> payload" where
  "blank_payload type n =
     (if type = - 32 then F32 (replicate n (Fin 0))
      else if type = - 64 then F64 (replicate n (Fin 0))
      else if type = 8 then U8 (replicate n 0)
      else if type = 16 then I16 (replicate n 0)
      else if type = 32 then I32 (replicate n 0)
      else I64 (replicate n 0))"

text \<open>\<^verbatim>\<open>DataCube_blank\<close>: a cube of zeros with a basic header.\<close>

definition DataCube_blank :: "extern \<Rightarrow> nat \<Rightarrow> nat \<Rightarrow> nat \<Rightarrow> int \<Rightarrow> error + DataCube" where
  "DataCube_blank ext nx ny nz type =
     (if \<not> (0 < nx \<and> 0 < ny \<and> 0 < nz)
      then Inl (Ensure ''Illegal data cube size requested.'')
      else if \<not> (\<bar>type\<bar> = 64 \<or> \<bar>type\<bar> = 32 \<or> type = 8 \<or> type = 16)
      then Inl (Ensure ''Invalid FITS data type requested.'')
      else
        (let dim = (if 1 < nz then 3 else if 1 < ny then 2 else (1::nat))
         in run_puts
           ([\<lambda>c. DataCube_puthd_bool c ''SIMPLE'' True,
             \<lambda>c. DataCube_puthd_int c ''BITPIX'' type,
             \<lambda>c. DataCube_puthd_int c ''NAXIS'' (int dim),
             \<lambda>c. DataCube_puthd_int c ''NAXIS1'' (int nx)]
            @ (if 1 < dim then [\<lambda>c. DataCube_puthd_int c ''NAXIS2'' (int ny)] else [])
            @ (if 2 < dim then [\<lambda>c. DataCube_puthd_int c ''NAXIS3'' (int nz)] else [])
            @ [\<lambda>c. DataCube_puthd_flt ext c ''CRPIX1'' (Fin 1),
               \<lambda>c. DataCube_puthd_flt ext c ''CDELT1'' (Fin 1),
               \<lambda>c. DataCube_puthd_flt ext c ''CRVAL1'' (Fin 1)]
            @ (if 1 < dim then
                 [\<lambda>c. DataCube_puthd_flt ext c ''CRPIX2'' (Fin 1),
                  \<lambda>c. DataCube_puthd_flt ext c ''CDELT2'' (Fin 1),
                  \<lambda>c. DataCube_puthd_flt ext c ''CRVAL2'' (Fin 1)] else [])
            @ (if 1 < dim then
                 [\<lambda>c. DataCube_puthd_flt ext c ''CRPIX3'' (Fin 1),
                  \<lambda>c. DataCube_puthd_flt ext c ''CDELT3'' (Fin 1),
                  \<lambda>c. DataCube_puthd_flt ext c ''CRVAL3'' (Fin 1)] else []))
           \<lparr>header = ''END'' @ replicate (FITS_HEADER_BLOCK_SIZE - 3) SPACE,
            dimension = dim, axis_size = [nx, ny, nz, 1],
            data = blank_payload type (nx * ny * nz)\<rparr>))"

text \<open>\<^verbatim>\<open>DataCube_copy\<close>: a physical copy; in the model, the same value.\<close>

definition DataCube_copy :: "DataCube \<Rightarrow> DataCube" where
  "DataCube_copy source = source"

section \<open>The Smooth + Clip finder\<close>

text \<open>
  Copying one string-valued keyword from the data cube to the mask cube, as
  \<^verbatim>\<open>DataCube_run_scfind\<close> does for \<^verbatim>\<open>CTYPE1\<close> to \<^verbatim>\<open>CTYPE3\<close>. The state is the mask cube
  and the local buffer \<^verbatim>\<open>value\<close>, which is \<open>None\<close> until it is written for the first
  time; the result of \<^verbatim>\<open>DataCube_gethd_str\<close> is not looked at.
\<close>

definition copy_hd_str ::
  "DataCube \<Rightarrow> string \<Rightarrow> DataCube \<times> string option \<Rightarrow> error + DataCube \<times> string option" where
  "copy_hd_str this key st =
     (case DataCube_chkhd this key of
        Inl e \<Rightarrow> Inl e
      | Inr line \<Rightarrow>
          if line = 0 then Inr st
          else case DataCube_gethd_str this key of
            Inl e \<Rightarrow> Inl e
          | Inr got \<Rightarrow>
              (case (case got of None \<Rightarrow> snd st | Some v \<Rightarrow> Some v) of
                 None \<Rightarrow> Inl Uninitialised
               | Some v \<Rightarrow>
                   (case DataCube_puthd_str (fst st) key v of
                      Inl e \<Rightarrow> Inl e
                    | Inr (m, r) \<Rightarrow> Inr (m, Some v))))"

text \<open>Copying one number-valued keyword.\<close>

definition copy_hd_flt :: "extern \<Rightarrow> DataCube \<Rightarrow> string \<Rightarrow> DataCube \<Rightarrow> error + DataCube" where
  "copy_hd_flt ext this key maskCube =
     (case DataCube_chkhd this key of
        Inl e \<Rightarrow> Inl e
      | Inr line \<Rightarrow>
          if line = 0 then Inr maskCube
          else case DataCube_gethd_flt ext this key of
            Inl e \<Rightarrow> Inl e
          | Inr v \<Rightarrow>
              (case DataCube_puthd_flt ext maskCube key v of
                 Inl e \<Rightarrow> Inl e
               | Inr (m, r) \<Rightarrow> Inr m))"

fun copy_hd_strs ::
  "DataCube \<Rightarrow> string list \<Rightarrow> DataCube \<times> string option \<Rightarrow> error + DataCube \<times> string option" where
  "copy_hd_strs this [] st = Inr st"
| "copy_hd_strs this (k # ks) st =
     (case copy_hd_str this k st of Inl e \<Rightarrow> Inl e | Inr st' \<Rightarrow> copy_hd_strs this ks st')"

fun copy_hd_flts :: "extern \<Rightarrow> DataCube \<Rightarrow> string list \<Rightarrow> DataCube \<Rightarrow> error + DataCube" where
  "copy_hd_flts ext this [] m = Inr m"
| "copy_hd_flts ext this (k # ks) m =
     (case copy_hd_flt ext this k m of Inl e \<Rightarrow> Inl e | Inr m' \<Rightarrow> copy_hd_flts ext this ks m')"

text \<open>The copy of the WCS keywords, in the order of the source.\<close>

definition copy_wcs :: "extern \<Rightarrow> DataCube \<Rightarrow> DataCube \<Rightarrow> error + DataCube" where
  "copy_wcs ext this maskCube =
     (case copy_hd_strs this [''CTYPE1'', ''CTYPE2'', ''CTYPE3''] (maskCube, None) of
        Inl e \<Rightarrow> Inl e
      | Inr (m, v) \<Rightarrow>
          copy_hd_flts ext this
            [''CRVAL1'', ''CRVAL2'', ''CRVAL3'', ''CRPIX1'', ''CRPIX2'', ''CRPIX3'',
             ''CDELT1'', ''CDELT2'', ''CDELT3'', ''EPOCH''] m)"

definition FWHM_CONST :: real where
  "FWHM_CONST = 2 * sqrt (2 * ln 2)"

definition MAX_PIX_CONST :: real where
  "MAX_PIX_CONST = 1000000"

text \<open>
  The conversion \<^verbatim>\<open>(size_t)\<close> of a double: the value is truncated towards zero; C leaves
  the conversion undefined when the truncated value is not a \<^verbatim>\<open>size_t\<close> (64 bits).
\<close>

fun to_size_t :: "fp \<Rightarrow> error + nat" where
  "to_size_t (Fin a) = (if - 1 < a \<and> a < 2 ^ 64 then Inr (nat \<lfloor>a\<rfloor>) else Inl Overflow)"
| "to_size_t a = Inl Overflow"

text \<open>The quotient \<^verbatim>\<open>a / c\<close> of a double and a positive constant, as the source computes it.\<close>

fun dbl_div_const :: "fp \<Rightarrow> real \<Rightarrow> fp" where
  "dbl_div_const (Fin a) c = to_double (Fin (a / c))"
| "dbl_div_const a c = a"

text \<open>
  The sampling of the noise measurement,
  \<^verbatim>\<open>(size_t)pow((double)(this->data_size) / MAX_PIX_CONST, 1.0 / 3.0)\<close>, and at least 1.
\<close>

definition sampleRms :: "extern \<Rightarrow> DataCube \<Rightarrow> error + nat" where
  "sampleRms ext this =
     (case to_size_t (pow ext (dbl_div_const (to_double (Fin (real (data_size this)))) MAX_PIX_CONST)
                        (to_double (Fin (1 / 3)))) of
        Inl e \<Rightarrow> Inl e
      | Inr s \<Rightarrow> Inr (if s < 1 then 1 else s))"

text \<open>
  The working copy of one iteration: the copy of the cube with the pixels detected so
  far replaced, smoothed in space for a spatial kernel other than 0 and along the
  spectrum for a spectral kernel other than 0.
\<close>

definition smoothed_copy ::
  "extern \<Rightarrow> DataCube \<Rightarrow> (nat \<Rightarrow> bool) \<Rightarrow> DataCube \<Rightarrow> fp \<Rightarrow> real \<Rightarrow> nat
    \<Rightarrow> error + DataCube" where
  "smoothed_copy ext this signs maskCube replacement kxy kz =
     (case DataCube_set_masked_32 (DataCube_copy this) signs maskCube replacement of
        Inl e \<Rightarrow> Inl e
      | Inr c1 \<Rightarrow>
          (case (if kxy \<noteq> 0 then DataCube_gaussian ext c1 (Fin (kxy / FWHM_CONST)) else Inr c1) of
             Inl e \<Rightarrow> Inl e
           | Inr c2 \<Rightarrow> (if kz \<noteq> 0 then DataCube_boxcar c2 (kz div 2) else Inr c2)))"

text \<open>
  The body of the double loop over the kernels, for one pair of kernels; \<open>sample\<close> is the
  value of \<^verbatim>\<open>sampleRms\<close>.
\<close>

definition scfind_step ::
  "extern \<Rightarrow> DataCube \<Rightarrow> (nat \<Rightarrow> bool) \<Rightarrow> fp \<Rightarrow> fp \<Rightarrow> nat \<Rightarrow> fp \<Rightarrow> real \<times> nat
    \<Rightarrow> DataCube \<Rightarrow> error + DataCube" where
  "scfind_step ext this signs threshold maskScaleXY sample rms k maskCube =
     (if fst k \<noteq> 0 \<or> snd k \<noteq> 0 then
        (case smoothed_copy ext this signs maskCube (dbl_mul maskScaleXY rms) (fst k) (snd k) of
           Inl e \<Rightarrow> Inl e
         | Inr smoothedCube \<Rightarrow>
             (case DataCube_stat_std smoothedCube 0 sample (- 1) of
                Inl e \<Rightarrow> Inl e
              | Inr rms_smooth \<Rightarrow>
                  DataCube_mask_32 smoothedCube maskCube (dbl_mul threshold rms_smooth)))
      else Inr maskCube)"

fun scfind_loop ::
  "extern \<Rightarrow> DataCube \<Rightarrow> (nat \<Rightarrow> bool) \<Rightarrow> fp \<Rightarrow> fp \<Rightarrow> nat \<Rightarrow> fp \<Rightarrow> (real \<times> nat) list
    \<Rightarrow> DataCube \<Rightarrow> error + DataCube" where
  "scfind_loop ext this signs threshold maskScaleXY sample rms [] maskCube = Inr maskCube"
| "scfind_loop ext this signs threshold maskScaleXY sample rms (k # ks) maskCube =
     (case scfind_step ext this signs threshold maskScaleXY sample rms k maskCube of
        Inl e \<Rightarrow> Inl e
      | Inr m \<Rightarrow> scfind_loop ext this signs threshold maskScaleXY sample rms ks m)"

text \<open>
  \<^verbatim>\<open>DataCube_run_scfind\<close>. The kernel lists are the values of the two \<^verbatim>\<open>Array\<close> objects;
  the pairs are visited with the spatial kernel in the outer loop. \<open>signs\<close> are the sign
  bits of the pixels of the cube, which the model needs for the zeros and the NaNs among
  them.
\<close>

definition DataCube_run_scfind ::
  "extern \<Rightarrow> DataCube \<Rightarrow> (nat \<Rightarrow> bool) \<Rightarrow> real list \<Rightarrow> nat list \<Rightarrow> fp \<Rightarrow> fp
    \<Rightarrow> error + DataCube" where
  "DataCube_run_scfind ext this signs kernels_spat kernels_spec threshold maskScaleXY =
     (if \<not> data_type this < 0
      then Inl (Ensure ''The S+C finder can only be applied to floating-point data.'')
      else if kernels_spat = [] \<or> kernels_spec = []
      then Inl (Ensure ''Invalid spatial or spectral kernel list encountered.'')
      else if \<not> fp_le (Fin 0) threshold
      then Inl (Ensure ''Negative flux threshold encountered.'')
      else case DataCube_blank ext (axis_size this ! 0) (axis_size this ! 1) (axis_size this ! 2) 32 of
        Inl e \<Rightarrow> Inl e
      | Inr blank \<Rightarrow>
      (case copy_wcs ext this blank of
        Inl e \<Rightarrow> Inl e
      | Inr maskCube \<Rightarrow>
      (case sampleRms ext this of
        Inl e \<Rightarrow> Inl e
      | Inr sample \<Rightarrow>
      (case DataCube_stat_std this 0 sample (- 1) of
        Inl e \<Rightarrow> Inl e
      | Inr rms \<Rightarrow>
      (case DataCube_mask_32 this maskCube (dbl_mul threshold rms) of
        Inl e \<Rightarrow> Inl e
      | Inr mask0 \<Rightarrow>
          scfind_loop ext this signs threshold maskScaleXY sample rms
            (List.product kernels_spat kernels_spec) mask0)))))"

subsection \<open>Example cubes for the finder\<close>

text \<open>A double-precision cube with the single spectrum 0, 3, 0.\<close>

definition spike_cube :: DataCube where
  "spike_cube = \<lparr>header = ''END'' @ replicate (FITS_HEADER_BLOCK_SIZE - 3) SPACE,
     dimension = 3, axis_size = [1, 1, 3, 1], data = F64 [Fin 0, Fin 3, Fin 0]\<rparr>"

text \<open>The single-precision cube of 4 x 4 x 4 zeros, with any header.\<close>

definition zero_cube :: "string \<Rightarrow> DataCube" where
  "zero_cube hdr = \<lparr>header = hdr, dimension = 3, axis_size = [4, 4, 4, 1],
     data = F32 (replicate 64 (Fin 0))\<rparr>"

text \<open>
  A double-precision cube with the single spectrum 0, 0, 0, and a 32-bit mask of the same
  size with no pixel set.
\<close>

definition flat_cube :: DataCube where
  "flat_cube = \<lparr>header = ''END'' @ replicate (FITS_HEADER_BLOCK_SIZE - 3) SPACE,
     dimension = 3, axis_size = [1, 1, 3, 1], data = F64 [Fin 0, Fin 0, Fin 0]\<rparr>"

definition spike_mask :: DataCube where
  "spike_mask = \<lparr>header = ''END'' @ replicate (FITS_HEADER_BLOCK_SIZE - 3) SPACE,
     dimension = 3, axis_size = [1, 1, 3, 1], data = I32 [0, 0, 0]\<rparr>"

section \<open>The linker parameter table\<close>

text \<open>
  \<^verbatim>\<open>LinkerPar.c\<close> is not among the sources; only the structure and the prototypes of
  \<^verbatim>\<open>LinkerPar.h\<close> are. The structure holds parallel arrays of equal length; the model
  holds the list of their rows. The bounding box is stored in 16 bits.
\<close>

record LinkerPar_row =
  label :: nat
  n_pix :: nat
  x_min :: nat
  x_max :: nat
  y_min :: nat
  y_max :: nat
  z_min :: nat
  z_max :: nat

type_synonym LinkerPar = "LinkerPar_row list"

text \<open>The conversion of a \<^verbatim>\<open>size_t\<close> to a \<^verbatim>\<open>uint16_t\<close> argument.\<close>

definition uint16 :: "nat \<Rightarrow> nat" where
  "uint16 n = n mod 2 ^ 16"

definition LinkerPar_new :: LinkerPar where
  "LinkerPar_new = []"

text \<open>
  Modelled from the spec: \<^verbatim>\<open>LinkerPar_push\<close> appends a new row with pixel count 1, the
  bounding box of the single pixel and the final label 0.
\<close>

definition LinkerPar_push :: "LinkerPar \<Rightarrow> nat \<Rightarrow> nat \<Rightarrow> nat \<Rightarrow> LinkerPar" where
  "LinkerPar_push this x y z =
     this @ [\<lparr>label = 0, n_pix = 1, x_min = uint16 x, x_max = uint16 x,
              y_min = uint16 y, y_max = uint16 y, z_min = uint16 z, z_max = uint16 z\<rparr>]"

text \<open>
  Modelled from the spec: \<^verbatim>\<open>LinkerPar_update\<close> increments the pixel count of row
  \<open>index\<close> and widens its bounding box; a label outside the table is an error of the
  kind \<^verbatim>\<open>ERR_INDEX_RANGE\<close>.
\<close>

definition LinkerPar_update :: "LinkerPar \<Rightarrow> nat \<Rightarrow> nat \<Rightarrow> nat \<Rightarrow> nat \<Rightarrow> error + LinkerPar" where
  "LinkerPar_update this index x y z =
     (if \<not> index < length this then Inl (Ensure ''ERR_INDEX_RANGE'')
      else Inr (this[index := (this ! index)
        \<lparr>n_pix := n_pix (this ! index) + 1,
         x_min := min (x_min (this ! index)) (uint16 x),
         x_max := max (x_max (this ! index)) (uint16 x),
         y_min := min (y_min (this ! index)) (uint16 y),
         y_max := max (y_max (this ! index)) (uint16 y),
         z_min := min (z_min (this ! index)) (uint16 z),
         z_max := max (z_max (this ! index)) (uint16 z)\<rparr>]))"

text \<open>
  Modelled from the spec: \<^verbatim>\<open>LinkerPar_get_size\<close> returns the extent of the bounding box
  of row \<open>index\<close> along the axis, maximum minus minimum plus 1.
\<close>

definition LinkerPar_get_size :: "LinkerPar \<Rightarrow> nat \<Rightarrow> int \<Rightarrow> error + nat" where
  "LinkerPar_get_size this index axis =
     (if \<not> index < length this then Inl (Ensure ''ERR_INDEX_RANGE'')
      else if axis = 0 then Inr (x_max (this ! index) - x_min (this ! index) + 1)
      else if axis = 1 then Inr (y_max (this ! index) - y_min (this ! index) + 1)
      else if axis = 2 then Inr (z_max (this ! index) - z_min (this ! index) + 1)
      else Inl (Ensure ''ERR_USER_INPUT''))"

text \<open>Modelled from the spec: \<^verbatim>\<open>LinkerPar_set_label\<close> and \<^verbatim>\<open>LinkerPar_get_label\<close>.\<close>

definition LinkerPar_set_label :: "LinkerPar \<Rightarrow> nat \<Rightarrow> nat \<Rightarrow> error + LinkerPar" where
  "LinkerPar_set_label this index l =
     (if \<not> index < length this then Inl (Ensure ''ERR_INDEX_RANGE'')
      else Inr (this[index := (this ! index)\<lparr>label := l\<rparr>]))"

definition LinkerPar_get_label :: "LinkerPar \<Rightarrow> nat \<Rightarrow> error + nat" where
  "LinkerPar_get_label this index =
     (if \<not> index < length this then Inl (Ensure ''ERR_INDEX_RANGE'')
      else Inr (label (this ! index)))"

text \<open>
  Modelled from the spec: \<^verbatim>\<open>LinkerPar_reduce\<close> discards the rows with final label 0; the
  remaining rows are reordered into ascending final label.
\<close>

definition LinkerPar_reduce :: "LinkerPar \<Rightarrow> LinkerPar" where
  "LinkerPar_reduce this = sort_key label (filter (\<lambda>r. label r \<noteq> 0) this)"

section \<open>The linker\<close>

text \<open>The arithmetic of \<^verbatim>\<open>size_t\<close> (64 bits) and of \<^verbatim>\<open>int32_t\<close>, with the wrap-around.\<close>

definition sub64 :: "nat \<Rightarrow> nat \<Rightarrow> nat" where
  "sub64 a b = (a + 2 ^ 64 - b mod 2 ^ 64) mod 2 ^ 64"

definition add64 :: "nat \<Rightarrow> nat \<Rightarrow> nat" where
  "add64 a b = (a + b) mod 2 ^ 64"

definition mul64 :: "nat \<Rightarrow> nat \<Rightarrow> nat" where
  "mul64 a b = (a * b) mod 2 ^ 64"

definition wrap32 :: "int \<Rightarrow> int" where
  "wrap32 v = (v + 2 ^ 31) mod 2 ^ 32 - 2 ^ 31"

text \<open>
  The test of \<^verbatim>\<open>DataCube_mark_neighbours\<close> that makes the loop skip the neighbour
  \<open>(xx, yy)\<close> of \<open>(x, y)\<close>.
\<close>

definition skipped :: "nat \<Rightarrow> nat \<Rightarrow> nat \<Rightarrow> nat \<Rightarrow> nat \<Rightarrow> nat \<Rightarrow> bool" where
  "skipped x y radius_x radius_y xx yy =
     (add64 (mul64 (sub64 xx x) (sub64 xx x)) (mul64 (sub64 yy y) (sub64 yy y))
        < mul64 radius_x radius_y)"

text \<open>
  The bounds of the three loops of \<^verbatim>\<open>DataCube_mark_neighbours\<close> along one axis of size
  \<open>n\<close>, and the neighbours that the loops examine, in their order, without the skipped
  ones.
\<close>

definition lower_bound :: "nat \<Rightarrow> nat \<Rightarrow> nat" where
  "lower_bound x radius = (if radius < x then x - radius else 0)"

definition upper_bound :: "nat \<Rightarrow> nat \<Rightarrow> nat \<Rightarrow> nat" where
  "upper_bound n x radius =
     (if x < sub64 (sub64 n 1) radius then add64 x radius else sub64 n 1)"

definition neighbours ::
  "DataCube \<Rightarrow> nat \<Rightarrow> nat \<Rightarrow> nat \<Rightarrow> nat \<Rightarrow> nat \<Rightarrow> nat \<Rightarrow> (nat \<times> nat \<times> nat) list" where
  "neighbours this x y z radius_x radius_y radius_z =
     concat (map (\<lambda>zz. concat (map (\<lambda>yy.
         map (\<lambda>xx. (xx, yy, zz))
           (filter (\<lambda>xx. \<not> skipped x y radius_x radius_y xx yy)
              [lower_bound x radius_x ..< Suc (upper_bound (axis_size this ! 0) x radius_x)]))
       [lower_bound y radius_y ..< Suc (upper_bound (axis_size this ! 1) y radius_y)]))
     [lower_bound z radius_z ..< Suc (upper_bound (axis_size this ! 2) z radius_z)])"

text \<open>
  \<^verbatim>\<open>DataCube_mark_neighbours\<close> calls itself inside its loops. The model runs the call
  stack: a frame is the list of the neighbours that a call has still to examine, the
  first frame belongs to the innermost call. A neighbour with mask value 1 receives the
  label, the table is updated, and a new call starts with the neighbours of that pixel.
  With the label 1 the source would mark the same pixels again and again and never
  return. The state is the mask and the table.
\<close>

function mark_run ::
  "DataCube \<Rightarrow> nat \<Rightarrow> nat \<Rightarrow> nat \<Rightarrow> int \<Rightarrow> (nat \<times> nat \<times> nat) list list
    \<Rightarrow> int list \<times> LinkerPar \<Rightarrow> error + int list \<times> LinkerPar" where
  "mark_run this rx ry rz l [] st = Inr st"
| "mark_run this rx ry rz l ([] # fs) st = mark_run this rx ry rz l fs st"
| "mark_run this rx ry rz l ((p # ns) # fs) st =
     (if \<not> DataCube_get_index this (fst p) (fst (snd p)) (snd (snd p)) < length (fst st)
      then Inl OutOfBounds
      else if fst st ! DataCube_get_index this (fst p) (fst (snd p)) (snd (snd p)) = 1
      then
        (if l = 1 then Inl NoReturn
         else case LinkerPar_update (snd st) (nat l) (fst p) (fst (snd p)) (snd (snd p)) of
           Inl e \<Rightarrow> Inl e
         | Inr lpar \<Rightarrow>
             mark_run this rx ry rz l
               (neighbours this (fst p) (fst (snd p)) (snd (snd p)) rx ry rz # ns # fs)
               ((fst st)[DataCube_get_index this (fst p) (fst (snd p)) (snd (snd p)) := l],
                lpar))
      else mark_run this rx ry rz l (ns # fs) st)"
  by pat_completeness auto
termination
proof (relation "measures [\<lambda>(this, rx, ry, rz, l, fs, st). length (filter (\<lambda>v. v = 1) (fst st)),
    \<lambda>(this, rx, ry, rz, l, fs, st). sum_list (map (\<lambda>f. Suc (length f)) fs)]", goal_cases)
  case 1
  show ?case by simp
next
  case (2 this rx ry rz l fs st)
  show ?case by simp
next
  case (3 this rx ry rz l p ns fs st lpar)
  have less: "length (filter (\<lambda>v. v = 1) (m[i := l])) < length (filter (\<lambda>v. v = 1) m)"
    if "i < length m" "m ! i = 1" "l \<noteq> 1" for m :: "int list" and i
    using that
  proof (induction m arbitrary: i)
    case Nil
    then show ?case by simp
  next
    case (Cons a m)
    then show ?case by (cases i) auto
  qed
  from 3 show ?case by (simp add: less)
next
  case (4 this rx ry rz l p ns fs st)
  show ?case by simp
qed

declare mark_run.simps [simp del]

definition DataCube_mark_neighbours ::
  "DataCube \<Rightarrow> nat \<Rightarrow> nat \<Rightarrow> nat \<Rightarrow> nat \<Rightarrow> nat \<Rightarrow> nat \<Rightarrow> int
    \<Rightarrow> int list \<times> LinkerPar \<Rightarrow> error + int list \<times> LinkerPar" where
  "DataCube_mark_neighbours this x y z radius_x radius_y radius_z l st =
     mark_run this radius_x radius_y radius_z l
       [neighbours this x y z radius_x radius_y radius_z] st"

text \<open>The pixels in the order of the loops of \<^verbatim>\<open>DataCube_run_linker\<close>: all three axes descending, \<open>x\<close> fastest.\<close>

definition scan_order :: "DataCube \<Rightarrow> (nat \<times> nat \<times> nat) list" where
  "scan_order this =
     concat (map (\<lambda>z. concat (map (\<lambda>y. map (\<lambda>x. (x, y, z)) (rev [0..<axis_size this ! 0]))
       (rev [0..<axis_size this ! 1]))) (rev [0..<axis_size this ! 2]))"

text \<open>The label after \<^verbatim>\<open>label += 1; if(label < 2) label = 2;\<close>.\<close>

definition next_label :: "int \<Rightarrow> int" where
  "next_label l = (if wrap32 (l + 1) < 2 then 2 else wrap32 (l + 1))"

text \<open>
  The first loop of \<^verbatim>\<open>DataCube_run_linker\<close>, over the pixels still to visit. The state
  is the mask, the table and the next label.
\<close>

fun link_loop ::
  "DataCube \<Rightarrow> nat \<Rightarrow> nat \<Rightarrow> nat \<Rightarrow> (nat \<times> nat \<times> nat) list
    \<Rightarrow> int list \<times> LinkerPar \<times> int \<Rightarrow> error + int list \<times> LinkerPar \<times> int" where
  "link_loop this rx ry rz [] st = Inr st"
| "link_loop this rx ry rz ((x, y, z) # ps) (m, lpar, l) =
     (if \<not> DataCube_get_index this x y z < length m then Inl OutOfBounds
      else if m ! DataCube_get_index this x y z = 1
      then
        (if \<not> 0 < l then Inl (Ensure ''Too many sources for 32-bit dynamic range of mask.'')
         else case DataCube_mark_neighbours this x y z rx ry rz l
                (m[DataCube_get_index this x y z := l], LinkerPar_push lpar x y z) of
           Inl e \<Rightarrow> Inl e
         | Inr (m', lpar') \<Rightarrow> link_loop this rx ry rz ps (m', lpar', next_label l))
      else link_loop this rx ry rz ps (m, lpar, l))"

text \<open>The second loop: filtering by size and relabelling.\<close>

fun filter_loop ::
  "DataCube \<Rightarrow> nat \<Rightarrow> nat \<Rightarrow> nat \<Rightarrow> (nat \<times> nat \<times> nat) list
    \<Rightarrow> int list \<times> LinkerPar \<times> int \<Rightarrow> error + int list \<times> LinkerPar \<times> int" where
  "filter_loop this mx my mz [] st = Inr st"
| "filter_loop this mx my mz ((x, y, z) # ps) (m, lpar, l) =
     (if \<not> DataCube_get_index this x y z < length m then Inl OutOfBounds
      else if 0 < m ! DataCube_get_index this x y z
      then
        (let v = nat (m ! DataCube_get_index this x y z)
         in case (LinkerPar_get_size lpar v 0, LinkerPar_get_size lpar v 1,
                  LinkerPar_get_size lpar v 2, LinkerPar_get_label lpar v) of
           (Inr sx, Inr sy, Inr sz, Inr old) \<Rightarrow>
             if sx < mx \<or> sy < my \<or> sz < mz
             then filter_loop this mx my mz ps (m[DataCube_get_index this x y z := 0], lpar, l)
             else if old = 0
             then (case LinkerPar_set_label lpar v (nat l) of
                     Inl e \<Rightarrow> Inl e
                   | Inr lpar' \<Rightarrow>
                       filter_loop this mx my mz ps
                         (m[DataCube_get_index this x y z := l], lpar', wrap32 (l + 1)))
             else filter_loop this mx my mz ps
                    (m[DataCube_get_index this x y z := int old], lpar, l)
         | _ \<Rightarrow> Inl (Ensure ''ERR_INDEX_RANGE''))
      else filter_loop this mx my mz ps (m, lpar, l))"

text \<open>
  The linker up to the point where the source destroys the table: the relabelled mask
  cube and the reduced table.
\<close>

definition linker_result ::
  "DataCube \<Rightarrow> nat \<Rightarrow> nat \<Rightarrow> nat \<Rightarrow> nat \<Rightarrow> nat \<Rightarrow> nat \<Rightarrow> error + DataCube \<times> LinkerPar" where
  "linker_result this radius_x radius_y radius_z min_size_x min_size_y min_size_z =
     (if \<not> data_type this = 32
      then Inl (Ensure ''Linker will only accept 32-bit integer masks.'')
      else case link_loop this radius_x radius_y radius_z (scan_order this)
             (ints (data this),
              LinkerPar_push (LinkerPar_push LinkerPar_new 0 0 0) 0 0 0, 2) of
        Inl e \<Rightarrow> Inl e
      | Inr (m1, lpar1, l1) \<Rightarrow>
          (case filter_loop this min_size_x min_size_y min_size_z (scan_order this)
                  (m1, lpar1, 1) of
             Inl e \<Rightarrow> Inl e
           | Inr (m2, lpar2, l2) \<Rightarrow>
               Inr (this\<lparr>data := I32 m2\<rparr>, LinkerPar_reduce lpar2)))"

text \<open>
  \<^verbatim>\<open>DataCube_run_linker\<close> returns no value and calls \<^verbatim>\<open>LinkerPar_delete\<close> on the table
  before it returns. The result of the model is the mask cube, rewritten in place, and
  what the caller holds of the table afterwards: nothing, \<open>None\<close>.
\<close>

definition DataCube_run_linker ::
  "DataCube \<Rightarrow> nat \<Rightarrow> nat \<Rightarrow> nat \<Rightarrow> nat \<Rightarrow> nat \<Rightarrow> nat \<Rightarrow> error + DataCube \<times> LinkerPar option" where
  "DataCube_run_linker this radius_x radius_y radius_z min_size_x min_size_y min_size_z =
     (case linker_result this radius_x radius_y radius_z min_size_x min_size_y min_size_z of
        Inl e \<Rightarrow> Inl e
      | Inr (c, lpar) \<Rightarrow> Inr (c, None))"

subsection \<open>Invariants of the two loops\<close>

text \<open>The buffer index of a pixel given as a triple.\<close>

definition idx :: "DataCube \<Rightarrow> nat \<times> nat \<times> nat \<Rightarrow> nat" where
  "idx this p = DataCube_get_index this (fst p) (fst (snd p)) (snd (snd p))"

text \<open>
  The invariant of the first loop, for the initial mask \<open>m0\<close> and the pixels \<open>ps\<close> still
  to visit: the table has one row per label handed out, the zeros of the mask are the
  zeros of \<open>m0\<close>, every other value is 1 or a label handed out, a pixel with value 1 is
  still to visit, and no row has a final label.
\<close>

definition link_inv :: "DataCube \<Rightarrow> int list \<Rightarrow> (nat \<times> nat \<times> nat) list
    \<Rightarrow> int list \<times> LinkerPar \<times> int \<Rightarrow> bool" where
  "link_inv this m0 ps st = (case st of (m, lpar, l) \<Rightarrow>
     length m = length m0 \<and> length lpar = nat l \<and> 2 \<le> l
     \<and> l + int (length ps) \<le> int (length m0) + 2
     \<and> (\<forall>i<length m0. (m ! i = 0) = (m0 ! i = 0))
     \<and> (\<forall>i<length m0. m ! i = 0 \<or> m ! i = 1 \<or> (2 \<le> m ! i \<and> m ! i < l))
     \<and> (\<forall>i<length m0. m ! i = 1 \<longrightarrow> i \<in> idx this ` set ps)
     \<and> (\<forall>r\<in>set lpar. label r = 0))"

text \<open>The test of the second loop that keeps a source: its extents reach the minimum sizes.\<close>

definition big_enough :: "nat \<Rightarrow> nat \<Rightarrow> nat \<Rightarrow> LinkerPar_row \<Rightarrow> bool" where
  "big_enough mx my mz r =
     (mx \<le> x_max r - x_min r + 1 \<and> my \<le> y_max r - y_min r + 1 \<and> mz \<le> z_max r - z_min r + 1)"

text \<open>
  The invariant of the second loop, for a table of \<open>n1\<close> rows: a pixel still to visit
  holds 0 or a provisional label, a visited pixel holds 0 or a final label below the next
  one \<open>l\<close>, every final label below \<open>l\<close> is held by a visited pixel and by exactly one
  row, and every row with a final label passes the size test.
\<close>

definition filter_inv :: "DataCube \<Rightarrow> int list \<Rightarrow> nat \<Rightarrow> nat \<Rightarrow> nat \<Rightarrow> nat
    \<Rightarrow> (nat \<times> nat \<times> nat) list \<Rightarrow> int list \<times> LinkerPar \<times> int \<Rightarrow> bool" where
  "filter_inv this m0 n1 mx my mz ps st = (case st of (m, lpar, l) \<Rightarrow>
     length m = length m0 \<and> length lpar = n1 \<and> 1 \<le> l
     \<and> l + int (length ps) \<le> int (length m0) + 1
     \<and> distinct (map (idx this) ps)
     \<and> (\<forall>i<length m0. i \<in> idx this ` set ps \<longrightarrow> m ! i = 0 \<or> (2 \<le> m ! i \<and> m ! i < int n1))
     \<and> (\<forall>i<length m0. i \<notin> idx this ` set ps \<longrightarrow> m ! i = 0 \<or> (1 \<le> m ! i \<and> m ! i < l))
     \<and> (\<forall>i<length m0. m0 ! i = 0 \<longrightarrow> m ! i = 0)
     \<and> (\<forall>k. 1 \<le> k \<and> k < l \<longrightarrow> (\<exists>i<length m0. i \<notin> idx this ` set ps \<and> m ! i = k))
     \<and> (\<forall>j<n1. label (lpar ! j) < nat l)
     \<and> (\<forall>j<n1. \<forall>j'<n1. label (lpar ! j) = label (lpar ! j') \<and> label (lpar ! j) \<noteq> 0 \<longrightarrow> j = j')
     \<and> (\<forall>k. 1 \<le> k \<and> k < nat l \<longrightarrow> (\<exists>j<n1. label (lpar ! j) = k))
     \<and> (\<forall>j<n1. label (lpar ! j) \<noteq> 0 \<longrightarrow> big_enough mx my mz (lpar ! j)))"

subsection \<open>The geometry of the expansion\<close>




subsection \<open>Example mask\<close>

text \<open>
  A mask of 2 x 2 x 2 pixels with the two candidate pixels \<open>(0, 0, 0)\<close> and \<open>(0, 0, 1)\<close>,
  which are neighbours along \<open>z\<close>, and the row that \<^verbatim>\<open>LinkerPar_push\<close> makes for the
  pixel \<open>(0, 0, 0)\<close>.
\<close>

definition col_mask :: DataCube where
  "col_mask = \<lparr>header = ''END'' @ replicate (FITS_HEADER_BLOCK_SIZE - 3) SPACE,
     dimension = 3, axis_size = [2, 2, 2, 1],
     data = I32 [1, 0, 0, 0, 1, 0, 0, 0]\<rparr>"

definition col_dummy :: LinkerPar_row where
  "col_dummy = \<lparr>label = 0, n_pix = 1, x_min = 0, x_max = 0, y_min = 0, y_max = 0,
     z_min = 0, z_max = 0\<rparr>"
section \<open>Properties of the narrowing conversion\<close>

lemma rne_of_int [simp]: "rne (of_int k) = k"
  by (simp add: rne_def)

lemma rne_bounds: "\<lfloor>x\<rfloor> \<le> rne x \<and> rne x \<le> \<lfloor>x\<rfloor> + 1"
  by (simp add: rne_def Let_def)

lemma rne_mono: "x \<le> y \<Longrightarrow> rne x \<le> rne y"
proof -
  assume xy: "x \<le> y"
  have fl: "\<lfloor>x\<rfloor> \<le> \<lfloor>y\<rfloor>" using xy by (rule floor_mono)
  show ?thesis
  proof (cases "\<lfloor>x\<rfloor> = \<lfloor>y\<rfloor>")
    case True
    then show ?thesis using xy by (auto simp: rne_def Let_def)
  next
    case False
    then have "\<lfloor>x\<rfloor> + 1 \<le> \<lfloor>y\<rfloor>" using fl by simp
    then show ?thesis using rne_bounds [of x] rne_bounds [of y] by linarith
  qed
qed

lemma rne_le_int: "x \<le> of_int k \<Longrightarrow> rne x \<le> k"
  using rne_mono [of x "of_int k"] by simp

lemma rne_ge_int: "of_int k \<le> x \<Longrightarrow> k \<le> rne x"
  using rne_mono [of "of_int k" x] by simp

lemma f32_exp_ge: "- 126 \<le> f32_exp a"
  by (simp add: f32_exp_def)

lemma f32_ulp_pos: "0 < f32_ulp a"
  by (simp add: f32_ulp_def)

lemma f32_exp_mono: "0 < a \<Longrightarrow> a \<le> b \<Longrightarrow> f32_exp a \<le> f32_exp b"
  unfolding f32_exp_def by (intro max.mono floor_mono) (auto)

lemma below_next_binade: 
  assumes "0 < a" shows "a < 2 powi (f32_exp a + 1)"
proof -
  have "a < 2 powr (of_int (\<lfloor>log 2 a\<rfloor> + 1))"
    using floor_log_eq_powr_iff [of a 2 "\<lfloor>log 2 a\<rfloor>"] assms by simp
  also have "\<dots> = 2 powi (\<lfloor>log 2 a\<rfloor> + 1)"
    by (rule powr_real_of_int') simp_all
  also have "\<dots> \<le> 2 powi (f32_exp a + 1)"
    by (intro power_int_increasing) (auto simp: f32_exp_def)
  finally show ?thesis .
qed

lemma above_binade:
  assumes "0 < a" "- 126 < f32_exp a" shows "2 powi (f32_exp a) \<le> a"
proof -
  have e: "f32_exp a = \<lfloor>log 2 a\<rfloor>" using assms(2) by (simp add: f32_exp_def max_def split: if_splits)
  have "2 powr (of_int \<lfloor>log 2 a\<rfloor>) \<le> a"
    using floor_log_eq_powr_iff [of a 2 "\<lfloor>log 2 a\<rfloor>"] assms by simp
  then show ?thesis unfolding e by (simp add: powr_real_of_int')
qed


lemma f32_round_0 [simp]: "f32_round 0 = 0"
  by (simp add: f32_round_def)

lemma f32_round_minus: "f32_round (- x) = - f32_round x"
  by (simp add: f32_round_def sgn_if)

lemma f32_round_pos_eq: "0 < a \<Longrightarrow> f32_round a = of_int (rne (a / f32_ulp a)) * f32_ulp a"
  by (simp add: f32_round_def)

lemma f32_round_nonneg: "0 \<le> a \<Longrightarrow> 0 \<le> f32_round a"
proof (cases "a = 0")
  case False
  assume "0 \<le> a"
  with False have a: "0 < a" by simp
  have "0 \<le> a / f32_ulp a" using a f32_ulp_pos [of a] by simp
  then have "0 \<le> rne (a / f32_ulp a)" using rne_ge_int [of 0] by simp
  then show ?thesis using a f32_ulp_pos [of a] by (simp add: f32_round_pos_eq)
qed simp

lemma f32_round_upper:
  assumes "0 < a" shows "f32_round a \<le> 2 powi (f32_exp a + 1)"
proof -
  have "a / f32_ulp a \<le> 2 powi (f32_exp a + 1) / f32_ulp a"
    using below_next_binade [OF assms] f32_ulp_pos [of a] by (simp add: divide_right_mono)
  also have "\<dots> = of_int (2 ^ 24)"
    by (simp add: f32_ulp_def power_int_diff power_int_add)
  finally have "rne (a / f32_ulp a) \<le> 2 ^ 24" by (rule rne_le_int)
  then have "of_int (rne (a / f32_ulp a)) * f32_ulp a \<le> of_int (2 ^ 24) * f32_ulp a"
    using f32_ulp_pos [of a] by (intro mult_right_mono) (auto simp: of_int_le_iff simp del: of_int_power of_int_numeral)
  also have "\<dots> = 2 powi (f32_exp a + 1)"
    by (simp add: f32_ulp_def power_int_diff power_int_add)
  finally show ?thesis using assms by (simp add: f32_round_pos_eq)
qed

lemma f32_round_lower:
  assumes "0 < a" "- 126 < f32_exp a" shows "2 powi (f32_exp a) \<le> f32_round a"
proof -
  have "of_int (2 ^ 23) = 2 powi (f32_exp a) / f32_ulp a"
    by (simp add: f32_ulp_def power_int_diff)
  also have "\<dots> \<le> a / f32_ulp a"
    using above_binade [OF assms] f32_ulp_pos [of a] by (simp add: divide_right_mono)
  finally have "2 ^ 23 \<le> rne (a / f32_ulp a)" by (rule rne_ge_int)
  then have "of_int (2 ^ 23) * f32_ulp a \<le> of_int (rne (a / f32_ulp a)) * f32_ulp a"
    using f32_ulp_pos [of a] by (intro mult_right_mono) (auto simp: of_int_le_iff simp del: of_int_power of_int_numeral)
  moreover have "of_int (2 ^ 23) * f32_ulp a = 2 powi (f32_exp a)"
    by (simp add: f32_ulp_def power_int_diff)
  ultimately show ?thesis using assms by (simp add: f32_round_pos_eq)
qed

lemma f32_round_mono_pos:
  assumes "0 < a" "a \<le> b" shows "f32_round a \<le> f32_round b"
proof -
  have b: "0 < b" using assms by simp
  have le: "f32_exp a \<le> f32_exp b" using assms by (rule f32_exp_mono)
  show ?thesis
  proof (cases "f32_exp a = f32_exp b")
    case True
    then have u: "f32_ulp a = f32_ulp b" by (simp add: f32_ulp_def)
    have "a / f32_ulp b \<le> b / f32_ulp b"
      using assms f32_ulp_pos [of b] by (simp add: divide_right_mono)
    then have "rne (a / f32_ulp b) \<le> rne (b / f32_ulp b)" by (rule rne_mono)
    then have "of_int (rne (a / f32_ulp b)) * f32_ulp b \<le> of_int (rne (b / f32_ulp b)) * f32_ulp b"
      using f32_ulp_pos [of b] by (intro mult_right_mono) auto
    then show ?thesis using assms b u by (simp add: f32_round_pos_eq)
  next
    case False
    with le have lt: "f32_exp a + 1 \<le> f32_exp b" by simp
    then have "- 126 < f32_exp b" using f32_exp_ge [of a] by linarith
    then have "2 powi (f32_exp b) \<le> f32_round b" using b by (intro f32_round_lower)
    moreover have "(2::real) powi (f32_exp a + 1) \<le> 2 powi (f32_exp b)"
      using lt by (intro power_int_increasing) auto
    ultimately show ?thesis using f32_round_upper [OF assms(1)] by linarith
  qed
qed

lemma f32_round_mono: "a \<le> b \<Longrightarrow> f32_round a \<le> f32_round b"
proof -
  assume ab: "a \<le> b"
  consider "0 < a" | "a \<le> 0" "0 \<le> b" | "b < 0" by linarith
  then show ?thesis
  proof cases
    case 1 then show ?thesis using ab by (rule f32_round_mono_pos)
  next
    case 2
    have "0 \<le> f32_round (- a)" using 2 by (intro f32_round_nonneg) simp
    then have "f32_round a \<le> 0" by (simp add: f32_round_minus)
    then show ?thesis using f32_round_nonneg [of b] 2 by linarith
  next
    case 3
    then have "f32_round (- b) \<le> f32_round (- a)" using ab by (intro f32_round_mono_pos) auto
    then show ?thesis by (simp add: f32_round_minus)
  qed
qed

lemma f32_exp_le:
  assumes "0 < y" "y < 2 powi (e + 1)" "- 126 \<le> e" shows "f32_exp y \<le> e"
proof -
  have "y < 2 powr (of_int (e + 1))"
    using assms(2) by (subst powr_real_of_int') simp_all
  then have "log 2 y < of_int (e + 1)"
    using assms(1) by (simp add: log_less_iff)
  then have "\<lfloor>log 2 y\<rfloor> < e + 1" by (simp only: floor_less_iff)
  then show ?thesis using assms(3) by (simp add: f32_exp_def)
qed

lemma f32_exp_powi:
  assumes "- 126 \<le> e" shows "f32_exp (2 powi e) = e"
proof -
  have "log 2 (2 powr (of_int e)) = of_int e" by simp
  then have "log 2 (2 powi e) = of_int e" by (subst (asm) powr_real_of_int') simp_all
  then show ?thesis using assms by (simp add: f32_exp_def)
qed

lemma f32_round_grid:
  assumes "0 < y" "y / f32_ulp y = of_int m" shows "f32_round y = y"
proof -
  have "f32_round y = of_int m * f32_ulp y"
    using assms by (simp add: f32_round_pos_eq)
  also have "\<dots> = y" using assms(2) f32_ulp_pos [of y] by (simp add: field_simps)
  finally show ?thesis .
qed

lemma grid_div:
  fixes y u :: real
  assumes "y = of_int k * (u * 2 ^ d)" "0 < u" shows "y / u = of_int (k * 2 ^ d)"
proof -
  have "y / u = of_int k * (u * 2 ^ d) / u" by (subst assms(1)) simp
  also have "\<dots> = of_int (k * 2 ^ d)" using assms(2) by simp
  finally show ?thesis .
qed

lemma f32_round_idem_pos:
  assumes a: "0 < a" shows "f32_round (f32_round a) = f32_round a"
proof -
  define k where "k = rne (a / f32_ulp a)"
  define y where "y = f32_round a"
  have y: "y = of_int k * 2 powi (f32_exp a - 23)"
    using a by (simp add: y_def k_def f32_round_pos_eq f32_ulp_def)
  have y0: "0 \<le> y" using a by (simp add: y_def f32_round_nonneg)
  have up: "y \<le> 2 powi (f32_exp a + 1)" unfolding y_def using a by (rule f32_round_upper)
  consider "y = 0" | "y = 2 powi (f32_exp a + 1)" | "0 < y" "y < 2 powi (f32_exp a + 1)"
    using y0 up by linarith
  then have "f32_round y = y"
  proof cases
    case 1 then show ?thesis by simp
  next
    case 2
    have e: "f32_exp y = f32_exp a + 1"
      unfolding 2 using f32_exp_ge [of a] by (intro f32_exp_powi) linarith
    have "y / f32_ulp y = of_int (2 ^ 23)"
      unfolding f32_ulp_def e unfolding 2 by (simp add: power_int_diff power_int_add)
    moreover have "0 < y" unfolding 2 by simp
    ultimately show ?thesis by (intro f32_round_grid)
  next
    case 3
    have le: "f32_exp y \<le> f32_exp a" using 3 f32_exp_ge [of a] by (intro f32_exp_le)
    define d where "d = nat (f32_exp a - f32_exp y)"
    have eq: "f32_exp a - 23 = (f32_exp y - 23) + int d" using le by (simp add: d_def)
    have pw: "(2::real) powi (f32_exp a - 23) = f32_ulp y * 2 ^ d"
      unfolding f32_ulp_def by (subst eq, subst power_int_add) simp_all
    have "y = of_int k * (f32_ulp y * 2 ^ d)"
      by (subst pw [symmetric]) (rule y)
    then have "y / f32_ulp y = of_int (k * 2 ^ d)"
      using f32_ulp_pos [of y] by (rule grid_div)
    then show ?thesis using 3(1) by (intro f32_round_grid)
  qed
  then show ?thesis by (simp add: y_def)
qed

lemma f32_round_idem: "f32_round (f32_round a) = f32_round a"
proof -
  consider "0 < a" | "a = 0" | "a < 0" by linarith
  then show ?thesis
  proof cases
    case 1 then show ?thesis by (rule f32_round_idem_pos)
  next
    case 2 then show ?thesis by simp
  next
    case 3
    then have "f32_round (f32_round (- a)) = f32_round (- a)" by (intro f32_round_idem_pos) simp
    then show ?thesis by (simp add: f32_round_minus)
  qed
qed

lemma to_float_idem: "to_float (to_float a) = to_float a"
  by (cases a) (simp_all add: f32_round_idem)

lemma to_float_neg: "to_float (fp_neg a) = fp_neg (to_float a)"
  by (cases a) (auto simp: f32_round_minus)

lemma to_float_mono: "fp_le a b \<Longrightarrow> fp_le (to_float a) (to_float b)"
proof (cases a; cases b)
  fix x y assume "a = Fin x" "b = Fin y" "fp_le a b"
  then show ?thesis using f32_round_mono [of x y] by auto
qed auto

lemma fp_less_to_float:
  assumes "is_float x" "fp_less (to_float t) x" shows "fp_less t x"
proof (rule ccontr)
  assume n: "\<not> fp_less t x"
  have tn: "t \<noteq> NaN" using assms(2) by (cases t) auto
  have xn: "x \<noteq> NaN" using assms(2) by (cases "to_float t"; cases x) auto
  have "fp_le x t" using n tn xn by (cases t; cases x) auto
  then have "fp_le (to_float x) (to_float t)" by (rule to_float_mono)
  then have "fp_le x (to_float t)" using assms(1) by (simp add: is_float_def)
  then show False using assms(2) by (cases x; cases "to_float t") auto
qed

lemma fp_greater_to_float:
  assumes "is_float x" "fp_less x (to_float t)" shows "fp_less x t"
proof (rule ccontr)
  assume n: "\<not> fp_less x t"
  have tn: "t \<noteq> NaN" using assms(2) by (cases t; cases x) auto
  have xn: "x \<noteq> NaN" using assms(2) by (cases x) auto
  have "fp_le t x" using n tn xn by (cases t; cases x) auto
  then have "fp_le (to_float t) (to_float x)" by (rule to_float_mono)
  then have "fp_le (to_float t) x" using assms(1) by (simp add: is_float_def)
  then show False using assms(2) by (cases x; cases "to_float t") auto
qed

lemma fp_less_NaN [simp]: "fp_less a NaN = False" "fp_le a NaN = False"
  by (cases a; simp)+

lemma f32_exp_eqI:
  assumes "2 powi e \<le> a" "a < 2 powi (e + 1)" "- 126 \<le> e" shows "f32_exp a = e"
proof -
  have a: "0 < a" using assms(1) by (smt (verit) zero_less_power_int)
  have "2 powr (of_int e) \<le> a" using assms(1) by (subst powr_real_of_int') simp_all
  moreover have "a < 2 powr (of_int (e + 1))" using assms(2) by (subst powr_real_of_int') simp_all
  ultimately have "\<lfloor>log 2 a\<rfloor> = e"
    using a floor_log_eq_powr_iff [of a 2 e] by simp
  then show ?thesis using assms(3) by (simp add: f32_exp_def)
qed

lemma is_float_special [simp]: "is_float NaN" "is_float PInf" "is_float MInf" "is_float (Fin 0)"
  by (simp_all add: is_float_def)

lemma f32_round_of_int_pos:
  assumes "0 < k" "k < 2 ^ 24" shows "f32_round (of_int k) = of_int k"
proof -
  define y :: real where "y = of_int k"
  have y: "0 < y" "y < 2 powi (23 + 1)" using assms by (simp_all add: y_def)
  have le: "f32_exp y \<le> 23" using y by (intro f32_exp_le) simp_all
  define d where "d = nat (23 - f32_exp y)"
  have "f32_exp y - 23 = - int d" using le by (simp add: d_def)
  then have "f32_ulp y = 1 / 2 ^ d" by (simp add: f32_ulp_def power_int_minus_divide)
  then have "y / f32_ulp y = of_int (k * 2 ^ d)" by (simp add: y_def)
  then have "f32_round y = y" using y(1) by (intro f32_round_grid)
  then show ?thesis by (simp add: y_def)
qed

lemma is_float_FinI:
  assumes "f32_round x = x" "\<bar>x\<bar> < 2 ^ 128" shows "is_float (Fin x)"
proof -
  have "x < 2 ^ 128" "- (2 ^ 128) < x" using assms(2) by (simp_all add: abs_less_iff)
  then show ?thesis using assms(1) by (simp add: is_float_def)
qed

lemma is_float_of_int:
  assumes "\<bar>k\<bar> < 2 ^ 24" shows "is_float (Fin (of_int k))"
proof -
  have r: "f32_round (of_int k) = of_int k"
  proof -
    consider "0 < k" | "k = 0" | "k < 0" by linarith
    then show ?thesis
    proof cases
      case 1 then show ?thesis using assms by (intro f32_round_of_int_pos) simp_all
    next
      case 2 then show ?thesis by simp
    next
      case 3
      then have "f32_round (of_int (- k)) = of_int (- k)" using assms by (intro f32_round_of_int_pos) simp_all
      then show ?thesis by (simp add: f32_round_minus)
    qed
  qed
  have "\<bar>real_of_int k\<bar> < 2 ^ 128"
  proof -
    have "\<bar>real_of_int k\<bar> < 2 ^ 24" using assms by (metis of_int_abs of_int_less_numeral_power_cancel_iff)
    also have "(2::real) ^ 24 \<le> 2 ^ 128" by simp
    finally show ?thesis .
  qed
  with r show ?thesis by (rule is_float_FinI)
qed

lemma rne_eqI:
  assumes "of_int k - 1 / 2 < x" "x < of_int k + 1 / 2" shows "rne x = k"
proof -
  consider "x < of_int k" | "of_int k \<le> x" by linarith
  then show ?thesis
  proof cases
    case 1
    then have "\<lfloor>x\<rfloor> = k - 1" using assms by (intro floor_unique) simp_all
    then show ?thesis using assms by (simp add: rne_def)
  next
    case 2
    then have "\<lfloor>x\<rfloor> = k" using assms by (intro floor_unique) simp_all
    then show ?thesis using assms by (simp add: rne_def)
  qed
qed

lemma f32_round_c4_level: "f32_round c4_level = c4_pixel"
proof -
  have x: "0 < c4_level" by (simp add: c4_level_def)
  have e: "f32_exp c4_level = 0" by (rule f32_exp_eqI) (simp_all add: c4_level_def)
  have u: "f32_ulp c4_level = 1 / 2 ^ 23" by (simp add: f32_ulp_def e power_int_minus_divide)
  have "rne (c4_level / f32_ulp c4_level) = 2 ^ 23 + 1"
    unfolding u by (rule rne_eqI) (simp_all add: c4_level_def)
  then have "f32_round c4_level = of_int (2 ^ 23 + 1) * (1 / 2 ^ 23)"
    using x by (simp only: f32_round_pos_eq u)
  then show ?thesis by (simp add: c4_pixel_def)
qed

lemma f32_round_c4_pixel: "f32_round c4_pixel = c4_pixel"
proof -
  have x: "0 < c4_pixel" by (simp add: c4_pixel_def)
  have e: "f32_exp c4_pixel = 0" by (rule f32_exp_eqI) (simp_all add: c4_pixel_def)
  have u: "f32_ulp c4_pixel = 1 / 2 ^ 23" by (simp add: f32_ulp_def e power_int_minus_divide)
  have "c4_pixel / f32_ulp c4_pixel = of_int (2 ^ 23 + 1)" unfolding u by (simp add: c4_pixel_def)
  with x show ?thesis by (rule f32_round_grid)
qed

lemma c4_pixel_bounds: "c4_pixel < 2 ^ 128" "- (2 ^ 128) < c4_pixel" "0 < c4_pixel" "c4_level < c4_pixel" "0 < c4_level"
  by (simp_all add: c4_pixel_def c4_level_def)

lemma to_float_c4_level: "to_float (Fin c4_level) = Fin c4_pixel"
  using c4_pixel_bounds by (simp add: f32_round_c4_level)

lemma to_float_6: "to_float (Fin 6) = Fin 6" "to_float (Fin 3) = Fin 3"
  using is_float_of_int [of 6]  is_float_of_int [of 3] by (simp_all add: is_float_def)

section \<open>Properties of the mask operation\<close>

lemma mask_loop_length [simp]: "length (mask_loop tp tn d m n) = length m"
  by (induction n arbitrary: m) simp_all

lemma mask_loop_nth:
  assumes "length d = length m" "n \<le> length d" "j < length m"
  shows "mask_loop tp tn d m n ! j =
    (if j < n \<and> (fp_less tp (d ! j) \<or> fp_less (d ! j) tn) then 1 else m ! j)"
  using assms
proof (induction n arbitrary: m)
  case 0
  then show ?case by simp
next
  case (Suc n)
  let ?m = "if fp_less tp (d ! n) \<or> fp_less (d ! n) tn then m[length m - length d + n := 1] else m"
  have len: "length d = length ?m" using Suc.prems by simp
  have "mask_loop tp tn d m (Suc n) ! j = mask_loop tp tn d ?m n ! j" by simp
  also have "\<dots> = (if j < n \<and> (fp_less tp (d ! j) \<or> fp_less (d ! j) tn) then 1 else ?m ! j)"
    using Suc.prems len by (intro Suc.IH) simp_all
  also have "\<dots> = (if j < Suc n \<and> (fp_less tp (d ! j) \<or> fp_less (d ! j) tn) then 1 else m ! j)"
    using Suc.prems by (auto simp: nth_list_update less_Suc_eq)
  finally show ?case .
qed

lemma abs_test:
  assumes "fp_le (Fin 0) t"
  shows "(fp_less t x \<or> fp_less x (fp_neg t)) = fp_less t (fp_abs x)"
  using assms by (cases t; cases x) auto

lemma thresh_pos_nonneg:
  assumes "fp_less (Fin 0) t" shows "fp_le (Fin 0) (thresh_pos this t)"
proof -
  have le: "fp_le (Fin 0) t" using assms by (cases t) auto
  then have "fp_le (to_float (Fin 0)) (to_float t)" by (rule to_float_mono)
  then show ?thesis using le by (simp add: thresh_pos_def)
qed

lemma thresh_neg_eq: "thresh_neg this t = fp_neg (thresh_pos this t)"
  by (simp add: thresh_neg_def thresh_pos_def to_float_neg)

lemma mask_pixels_result:
  assumes "wf_cube this" "wf_cube maskCube"
    and "data_type this = - 32 \<or> data_type this = - 64"
    and "data_type maskCube = 8 \<or> data_type maskCube = 16 \<or> data_type maskCube = 32
         \<or> data_type maskCube = 64"
    and "same_axes this maskCube"
    and "fp_less (Fin 0) threshold"
  shows "\<exists>m'. mask_pixels this maskCube threshold = Inr (maskCube\<lparr>data := with_ints (data maskCube) m'\<rparr>)
     \<and> length m' = length (ints (data maskCube))
     \<and> ints (with_ints (data maskCube) m') = m'
     \<and> payload_type (with_ints (data maskCube) m') = payload_type (data maskCube)
     \<and> (\<forall>i<data_size this. m' ! i =
          (if fp_less (thresh_pos this threshold) (fp_abs (flts (data this) ! i)) then 1
           else ints (data maskCube) ! i))"
proof -
  let ?d = "flts (data this)" and ?m = "ints (data maskCube)"
  let ?m' = "mask_loop (thresh_pos this threshold) (thresh_neg this threshold) ?d ?m (data_size this)"
  have sz: "data_size this = data_size maskCube"
    using assms(1,2,5) by (simp add: wf_cube_def same_axes_def)
  have d: "data_size this = length ?d"
    using assms(3) by (cases "data this") (simp_all add: data_size_def data_type_def)
  have m: "data_size maskCube = length ?m"
    using assms(4) by (cases "data maskCube") (simp_all add: data_size_def data_type_def)
  have "mask_pixels this maskCube threshold = Inr (maskCube\<lparr>data := with_ints (data maskCube) ?m'\<rparr>)"
    using sz by (simp add: mask_pixels_def)
  moreover have "ints (with_ints (data maskCube) ?m') = ?m'"
    using assms(4) by (cases "data maskCube") (simp_all add: data_type_def)
  moreover have "payload_type (with_ints (data maskCube) ?m') = payload_type (data maskCube)"
    by (cases "data maskCube") simp_all
  moreover have "?m' ! i =
          (if fp_less (thresh_pos this threshold) (fp_abs (?d ! i)) then 1 else ?m ! i)"
    if "i < data_size this" for i
  proof -
    have "?m' ! i = (if i < data_size this \<and> (fp_less (thresh_pos this threshold) (?d ! i)
        \<or> fp_less (?d ! i) (thresh_neg this threshold)) then 1 else ?m ! i)"
      using that sz d m by (intro mask_loop_nth) simp_all
    then show ?thesis
      using that abs_test [OF thresh_pos_nonneg [OF assms(6)], of this "?d ! i"]
      by (simp add: thresh_neg_eq)
  qed
  ultimately show ?thesis by (intro exI [of _ ?m']) simp
qed

lemma with_ints_twice [simp]: "with_ints (with_ints p a) b = with_ints p b"
  by (cases p) simp_all

lemma fp_less_le_trans: "fp_less a b \<Longrightarrow> fp_le b c \<Longrightarrow> fp_less a c"
  by (cases a; cases b; cases c) auto

lemma fp_le_less_trans: "fp_le a b \<Longrightarrow> fp_less b c \<Longrightarrow> fp_less a c"
  by (cases a; cases b; cases c) auto

lemma thresh_pos_mono: "fp_le t1 t2 \<Longrightarrow> fp_le (thresh_pos this t1) (thresh_pos this t2)"
  by (simp add: thresh_pos_def to_float_mono)

lemma int_data_size:
  assumes "data_type c = 8 \<or> data_type c = 16 \<or> data_type c = 32 \<or> data_type c = 64"
  shows "data_size c = length (ints (data c))"
  using assms by (cases "data c") (simp_all add: data_size_def data_type_def)

lemma flt_data_size:
  assumes "data_type c = - 32 \<or> data_type c = - 64"
  shows "data_size c = length (flts (data c))"
  using assms by (cases "data c") (simp_all add: data_size_def data_type_def)

lemma mask_pixels_idem:
  assumes "wf_cube this" "wf_cube maskCube"
    and "data_type this = - 32 \<or> data_type this = - 64"
    and "data_type maskCube = 8 \<or> data_type maskCube = 16 \<or> data_type maskCube = 32
         \<or> data_type maskCube = 64"
    and "same_axes this maskCube"
    and "fp_less (Fin 0) threshold"
    and "mask_pixels this maskCube threshold = Inr M"
  shows "mask_pixels this M threshold = Inr M \<and> wf_cube M \<and> data_type M = data_type maskCube
    \<and> same_axes this M"
proof -
  obtain m' where m': "mask_pixels this maskCube threshold
        = Inr (maskCube\<lparr>data := with_ints (data maskCube) m'\<rparr>)"
      "length m' = length (ints (data maskCube))"
      "ints (with_ints (data maskCube) m') = m'"
      "payload_type (with_ints (data maskCube) m') = payload_type (data maskCube)"
      "\<forall>i<data_size this. m' ! i =
          (if fp_less (thresh_pos this threshold) (fp_abs (flts (data this) ! i)) then 1
           else ints (data maskCube) ! i)"
    using mask_pixels_result [OF assms(1-6)] by blast
  have M: "M = maskCube\<lparr>data := with_ints (data maskCube) m'\<rparr>"
    using assms(7) m'(1) by simp
  have ty: "data_type M = data_type maskCube" using m'(4) by (simp add: M data_type_def)
  have sz: "data_size this = data_size maskCube"
    using assms(1,2,5) by (simp add: wf_cube_def same_axes_def)
  have szM: "data_size M = length m'"
    using int_data_size [of M] ty assms(4) m'(3) by (simp add: M)
  have wf: "wf_cube M"
    using assms(2,4) ty szM m'(2) int_data_size [OF assms(4)]
    by (auto simp: wf_cube_def M)
  have ax: "same_axes this M" using assms(5) by (simp add: same_axes_def M)
  obtain m'' where m'': "mask_pixels this M threshold = Inr (M\<lparr>data := with_ints (data M) m''\<rparr>)"
      "length m'' = length (ints (data M))"
      "\<forall>i<data_size this. m'' ! i =
          (if fp_less (thresh_pos this threshold) (fp_abs (flts (data this) ! i)) then 1
           else ints (data M) ! i)"
    using mask_pixels_result [OF assms(1) wf assms(3) _ ax assms(6)] assms(4) ty by auto
  have "m'' = m'"
  proof (rule nth_equalityI)
    show "length m'' = length m'" using m''(2) m'(3) by (simp add: M)
  next
    fix i assume "i < length m''"
    then have i: "i < data_size this"
      using m''(2) m'(2,3) sz int_data_size [OF assms(4)] by (simp add: M)
    show "m'' ! i = m' ! i" using m''(3) m'(5) m'(3) i by (simp add: M)
  qed
  then have "mask_pixels this M threshold = Inr M" using m''(1) by (simp add: M)
  then show ?thesis using wf ty ax by simp
qed

lemma ex_cubes_wf: "wf_cube ex_data" "wf_cube ex_mask" "data_type ex_data = - 32"
  "data_type ex_mask = 32" "same_axes ex_data ex_mask" "data_size ex_data = 3"
  using is_float_of_int [of 5] is_float_of_int [of "- 7"]
  by (simp_all add: wf_cube_def ex_data_def ex_mask_def data_size_def data_type_def same_axes_def)

lemma list3_eqI: "length xs = 3 \<Longrightarrow> xs ! 0 = a \<Longrightarrow> xs ! 1 = b \<Longrightarrow> xs ! 2 = c \<Longrightarrow> xs = [a, b, c]"
  by (cases xs; cases "tl xs"; cases "tl (tl xs)") auto

section \<open>Properties of the header lookup\<close>

lemma records_Nil [simp]: "records [] = []"
  by (subst records.simps) simp

lemma records_append:
  assumes "length r = 80" shows "records (r @ rest) = r # records rest"
  using assms by (subst records.simps) auto

lemma records_blank: "records (replicate (n * 80) c) = replicate n (replicate 80 c)"
proof (induction n)
  case 0 show ?case by simp
next
  case (Suc n)
  have "replicate (Suc n * 80) c = replicate 80 c @ replicate (n * 80) c"
    by (simp add: replicate_add [symmetric])
  then show ?case using Suc by (simp add: records_append)
qed

lemma length_hdr_line [simp]: "length s \<le> 80 \<Longrightarrow> length (hdr_line s) = 80"
  by (simp add: hdr_line_def)

lemma drop_line_mod: "length h mod 80 = 0 \<Longrightarrow> length (drop 80 h) mod 80 = 0"
proof -
  assume "length h mod 80 = 0"
  then have "(length h - 80) mod 80 = 0" by presburger
  then show ?thesis by simp
qed

lemma line_ge: "length h mod 80 = 0 \<Longrightarrow> h \<noteq> [] \<Longrightarrow> 80 \<le> length h"
  by (cases "length h < 80") auto

lemma records_length: "length h mod 80 = 0 \<Longrightarrow> r \<in> set (records h) \<Longrightarrow> length r = 80"
proof (induction h rule: records.induct)
  case (1 h)
  show ?case
  proof (cases "h = []")
    case True with 1 show ?thesis by simp
  next
    case False
    then have ge: "80 \<le> length h" using "1.prems"(1) by (cases "length h < 80") auto
    have m: "length (drop 80 h) mod 80 = 0"
      using "1.prems"(1) by (rule drop_line_mod)
    have "records h = take 80 h # records (drop 80 h)"
      using False by (subst records.simps) simp
    with "1.prems"(2) have "r = take 80 h \<or> r \<in> set (records (drop 80 h))" by simp
    then show ?thesis using "1.IH" [OF False m] ge by auto
  qed
qed

lemma first_pos_le: "first_pos P xs \<le> length xs"
  by (induction xs) (auto split: nat.splits)

lemma first_pos_0_iff: "first_pos P xs = 0 \<longleftrightarrow> (\<forall>x\<in>set xs. \<not> P x)"
  by (induction xs) (auto split: nat.splits)

lemma first_pos_replicate [simp]: "\<not> P x \<Longrightarrow> first_pos P (replicate n x) = 0"
  by (simp add: first_pos_0_iff)

lemma first_pos_Suc:
  "first_pos P xs = Suc n \<Longrightarrow> n < length xs \<and> P (xs ! n) \<and> (\<forall>j<n. \<not> P (xs ! j))"
proof (induction xs arbitrary: n)
  case Nil then show ?case by simp
next
  case (Cons x xs)
  show ?case
  proof (cases "P x")
    case True with Cons.prems show ?thesis by simp
  next
    case False
    with Cons.prems obtain m where m: "first_pos P xs = Suc m" "n = Suc m"
      by (cases "first_pos P xs") auto
    from Cons.IH [OF m(1)] False m(2) show ?thesis by (auto simp: less_Suc_eq_0_disj)
  qed
qed

lemma chkhd_loop_Nil [simp]: "chkhd_loop [] key line = Inr 0"
  by (subst chkhd_loop.simps) simp

lemma gethd_loop_Nil [simp]: "gethd_loop [] key = Inr None"
  by (subst gethd_loop.simps) simp

lemma chkhd_loop_line:
  assumes "80 \<le> length rest" "length key < 80"
  shows "chkhd_loop rest key line =
    (if key_delimited key (take 80 rest) then Inr line
     else chkhd_loop (drop 80 rest) key (line + 1))"
proof -
  have ne: "rest \<noteq> []" using assms(1) by auto
  have cmp: "strncmp_eq rest key = Inr (begins_with key rest)"
    using assms by (simp add: strncmp_eq_def begins_with_def)
  have kd: "key_delimited key (take 80 rest) =
      (begins_with key rest \<and> (rest ! length key = SPACE \<or> rest ! length key = CHR ''=''))"
    using assms(2) by (simp add: key_delimited_def begins_with_def min_def)
  show ?thesis
    using ne assms by (subst chkhd_loop.simps) (simp add: cmp kd split: bool.splits)
qed

lemma gethd_loop_line:
  assumes "80 \<le> length rest" "length key \<le> 80"
  shows "gethd_loop rest key =
    (if begins_with key (take 80 rest) then Inr (Some (value_field (take 80 rest)))
     else gethd_loop (drop 80 rest) key)"
proof -
  have ne: "rest \<noteq> []" using assms(1) by auto
  have cmp: "strncmp_eq rest key = Inr (begins_with key rest)"
    using assms by (simp add: strncmp_eq_def begins_with_def)
  have bw: "begins_with key (take 80 rest) = begins_with key rest"
    using assms(2) by (simp add: begins_with_def min_def)
  have vf: "value_field (take 80 rest) = take 70 (drop 10 rest)"
    by (simp add: value_field_def take_drop)
  show ?thesis
    using ne assms by (subst gethd_loop.simps) (simp add: cmp bw vf split: bool.splits)
qed

lemma records_line:
  assumes "80 \<le> length rest" shows "records rest = take 80 rest # records (drop 80 rest)"
  using assms by (subst records.simps) auto

lemma chkhd_loop_records:
  assumes "length rest mod 80 = 0" "length key < 80"
  shows "chkhd_loop rest key line =
    Inr (case first_pos (key_delimited key) (records rest) of 0 \<Rightarrow> 0 | Suc n \<Rightarrow> line + n)"
  using assms(1)
proof (induction "length rest" arbitrary: rest line rule: less_induct)
  case less
  show ?case
  proof (cases "rest = []")
    case True then show ?thesis by simp
  next
    case False
    have ge: "80 \<le> length rest" using less.prems False by (rule line_ge)
    have m: "length (drop 80 rest) mod 80 = 0" using less.prems by (rule drop_line_mod)
    have IH: "chkhd_loop (drop 80 rest) key (line + 1) =
        Inr (case first_pos (key_delimited key) (records (drop 80 rest)) of
          0 \<Rightarrow> 0 | Suc n \<Rightarrow> line + 1 + n)"
      using ge m by (intro less.hyps) simp_all
    show ?thesis
      unfolding chkhd_loop_line [OF ge assms(2)] records_line [OF ge] IH
      by (simp split: nat.splits)
  qed
qed

lemma gethd_loop_records:
  assumes "length rest mod 80 = 0" "length key \<le> 80"
  shows "gethd_loop rest key =
    Inr (map_option value_field (find (begins_with key) (records rest)))"
  using assms(1)
proof (induction "length rest" arbitrary: rest rule: less_induct)
  case less
  show ?case
  proof (cases "rest = []")
    case True then show ?thesis by simp
  next
    case False
    have ge: "80 \<le> length rest" using less.prems False by (rule line_ge)
    have m: "length (drop 80 rest) mod 80 = 0" using less.prems by (rule drop_line_mod)
    have IH: "gethd_loop (drop 80 rest) key =
        Inr (map_option value_field (find (begins_with key) (records (drop 80 rest))))"
      using ge m by (intro less.hyps) simp_all
    show ?thesis
      unfolding gethd_loop_line [OF ge assms(2)] records_line [OF ge] IH by simp
  qed
qed

lemma length_example_header: "length example_header = 2880"
  by (simp add: example_header_def hdr_line_def)

lemma records_example_header:
  "records example_header =
     [hdr_line ''NAXIS1  =                    5'', hdr_line ''HISTORY x   7'',
      hdr_line ''BITPIX  =                  -32'', hdr_line ''END'']
     @ replicate 32 (replicate 80 SPACE)"
  unfolding example_header_def
  using records_blank [of 32 SPACE] by (simp add: records_append)

lemma begins_with_blank:
  assumes "key \<noteq> []" "hd key \<noteq> SPACE" shows "\<not> begins_with key (replicate n SPACE)"
proof
  assume "begins_with key (replicate n SPACE)"
  then have "key = replicate (min (length key) n) SPACE" by (simp add: begins_with_def)
  then have "set key \<subseteq> {SPACE}" by (metis set_replicate_conv_if empty_subsetI subset_refl)
  then show False using assms by (cases key) auto
qed

lemma key_delimited_blank:
  assumes "key \<noteq> []" "hd key \<noteq> SPACE" shows "\<not> key_delimited key (replicate n SPACE)"
  using begins_with_blank [OF assms] by (simp add: key_delimited_def)

lemma example_lookups:
  "first_pos (key_delimited ''NAXIS'') (records example_header) = 0"
  "first_pos (key_delimited ''BITPIX'') (records example_header) = 3"
  "find (begins_with ''BITPIX'') (records example_header) = Some (hdr_line ''BITPIX  =                  -32'')"
  "find (begins_with ''HISTORY'') (records example_header) = Some (hdr_line ''HISTORY x   7'')"
  "spec_lookup example_header ''NAXIS'' = 1"
  "spec_lookup example_header ''HISTORY'' = 0"
  unfolding records_example_header spec_lookup_def
  by (simp_all add: key_delimited_blank begins_with_blank first_pos_0_iff)
     (simp_all add: key_delimited_def begins_with_def hdr_line_def)

lemma strtol_example: "strtol (c_string (value_field (hdr_line ''HISTORY x   7''))) = 7"
  by code_simp

section \<open>Properties of the finder\<close>

lemma boxcar_promoted: "DataCube_boxcar this 0 = DataCube_boxcar this 1"
  by (simp add: DataCube_boxcar_def)

lemma spike_spectrum: "spectrum spike_cube 0 0 = [Fin 0, Fin 3, Fin 0]"
  by (simp add: spectrum_def spike_cube_def DataCube_get_index_def upt_rec)

lemma boxcar_spike_1d:
  "filter_boxcar_1d (\<lambda>v. v) [Fin 0, Fin 3, Fin 0] (Suc 0) False = [Fin 1, Fin 1, Fin 1]"
  by (simp add: filter_boxcar_1d_def upt_rec)

lemma boxcar_spike:
  "DataCube_boxcar spike_cube 0 = Inr (spike_cube\<lparr>data := F64 [Fin 1, Fin 1, Fin 1]\<rparr>)"
proof -
  have t: "data_type spike_cube = - 64" "data_size spike_cube = 3"
    "axis_size spike_cube = [1, 1, 3, 1]" "data spike_cube = F64 [Fin 0, Fin 3, Fin 0]"
    by (simp_all add: spike_cube_def data_type_def data_size_def)
  have s: "store_of spike_cube = (\<lambda>v. v)" by (simp add: store_of_def t)
  have c: "contains_nan [Fin 0, Fin 3, Fin 0] = False" by (simp add: contains_nan_def)
  show ?thesis
    by (simp add: DataCube_boxcar_def t s spike_spectrum c boxcar_spike_1d upt_rec)
qed

lemma mask_32_threshold_0: "DataCube_mask_32 this m (Fin 0) = Inl e \<Longrightarrow>
    e \<in> {Ensure ''Data cube must be of floating-point type.'',
          Ensure ''Mask cube must be of 32-bit integer type.'',
          Ensure ''Data cube and mask cube have different sizes.'',
          Ensure ''Threshold must be positive.''}"
  by (auto simp: DataCube_mask_32_def split: if_splits)

lemma fp_add_0 [simp]: "fp_add (Fin 0) a = a"
  by (cases a) simp_all

lemma take_3_drop:
  "z + 3 \<le> length b \<Longrightarrow> take 3 (drop z b) = [b ! z, b ! (z + 1), b ! (z + 2)]"
  by (intro nth_equalityI) (auto simp: less_Suc_eq numeral_3_eq_3)

lemma boxcar_1d_width_3:
  assumes "z < length xs"
  shows "filter_boxcar_1d store xs (Suc 0) (contains_nan xs) ! z =
     store (fp_div_count
       (fp_add (fp_add (padded (zero_nans xs) (int z - 1)) (padded (zero_nans xs) (int z)))
               (padded (zero_nans xs) (int z + 1))) 3)"
proof -
  define ys where "ys = zero_nans xs"
  define box where "box = Fin 0 # ys @ [Fin 0]"
  have len: "length ys = length xs" by (simp add: ys_def zero_nans_def)
  have t: "take 3 (drop z box) = [box ! z, box ! (z + 1), box ! (z + 2)]"
    using assms len by (intro take_3_drop) (simp add: box_def)
  have a: "box ! z = padded ys (int z - 1)"
    using assms len by (cases z) (simp_all add: box_def padded_def nth_append)
  have b: "box ! Suc z = padded ys (int z)"
    using assms len by (simp add: box_def padded_def nth_append)
  have c: "box ! Suc (Suc z) = padded ys (int z + 1)"
    using assms len by (simp add: box_def padded_def nth_append nat_add_distrib)
  have "filter_boxcar_1d store xs (Suc 0) (contains_nan xs) ! z
      = store (fp_div_count (foldl fp_add (Fin 0) (take 3 (drop z box))) 3)"
    using assms by (simp add: filter_boxcar_1d_def Let_def box_def ys_def zero_nans_def)
  then show ?thesis by (simp add: t a b c ys_def)
qed

lemma get_index_parts:
  fixes x y z nx ny :: nat
  assumes "x < nx" "y < ny"
  shows "(x + nx * (y + ny * z)) mod nx = x" "(x + nx * (y + ny * z)) div nx mod ny = y"
    "(x + nx * (y + ny * z)) div (nx * ny) = z"
proof -
  show "(x + nx * (y + ny * z)) mod nx = x" using assms by simp
  have d: "(x + nx * (y + ny * z)) div nx = y + ny * z" using assms by simp
  show "(x + nx * (y + ny * z)) div nx mod ny = y" using assms by (simp add: d)
  have "(x + nx * (y + ny * z)) div (nx * ny) = (y + ny * z) div ny"
    by (simp only: div_mult2_eq d)
  then show "(x + nx * (y + ny * z)) div (nx * ny) = z" using assms by simp
qed

lemma get_index_less:
  fixes x y z nx ny nz :: nat
  assumes "x < nx" "y < ny" "z < nz"
  shows "x + nx * (y + ny * z) < nx * ny * (nz::nat)"
proof -
  have "y + ny * z < ny * nz"
  proof -
    have "y + ny * z < ny + ny * z" using assms by simp
    also have "\<dots> = ny * Suc z" by simp
    also have "\<dots> \<le> ny * nz" using assms by (intro mult_le_mono2) simp
    finally show ?thesis .
  qed
  then have "Suc (y + ny * z) \<le> ny * nz" by simp
  then have "nx * Suc (y + ny * z) \<le> nx * (ny * nz)" by (rule mult_le_mono2)
  moreover have "x + nx * (y + ny * z) < nx * Suc (y + ny * z)" using assms by simp
  ultimately show ?thesis by (simp add: mult.assoc)
qed

lemma boxcar_pixel:
  assumes "DataCube_boxcar this 0 = Inr c"
    and "x < axis_size this ! 0" "y < axis_size this ! 1" "z < axis_size this ! 2"
  shows "flts (data c) ! DataCube_get_index this x y z = store_of this (mean_3 this x y z)"
proof -
  let ?nx = "axis_size this ! 0" and ?ny = "axis_size this ! Suc 0" and ?nz = "axis_size this ! 2"
  let ?i = "x + ?nx * (y + ?ny * z)"
  have y: "y < ?ny" using assms(3) by simp
  let ?l = "map (\<lambda>i. if i < ?nx * ?ny * ?nz
                         then filter_boxcar_1d (store_of this)
                                (spectrum this (i mod ?nx) (i div ?nx mod ?ny)) (Suc 0)
                                (contains_nan (spectrum this (i mod ?nx) (i div ?nx mod ?ny)))
                              ! (i div (?nx * ?ny))
                         else flts (data this) ! i)
                 [0..<data_size this]"
  from assms(1) have ty: "data_type this = - 32 \<or> data_type this = - 64"
    and sz: "?nx * ?ny * ?nz \<le> data_size this"
    and c: "c = this\<lparr>data := with_flts (data this) ?l\<rparr>"
    by (auto simp: DataCube_boxcar_def Let_def split: if_splits)
  have f: "flts (data c) = ?l"
    using ty by (cases "data this") (simp_all add: c data_type_def)
  have i: "?i < ?nx * ?ny * ?nz" using assms(2) y assms(4) by (rule get_index_less)
  then have "?i < data_size this" using sz by simp
  then have "?l ! ?i = filter_boxcar_1d (store_of this) (spectrum this x y) (Suc 0)
      (contains_nan (spectrum this x y)) ! z"
    using i get_index_parts [OF assms(2) y, of z] by simp
  moreover have "z < length (spectrum this x y)" using assms(4) by (simp add: spectrum_def)
  ultimately show ?thesis
    by (simp add: f DataCube_get_index_def boxcar_1d_width_3 mean_3_def)
qed

lemma boxcar_returns:
  assumes "data_type this = - 32 \<or> data_type this = - 64"
    and "axis_size this ! 0 * axis_size this ! 1 * axis_size this ! 2 \<le> data_size this"
  shows "\<exists>c. DataCube_boxcar this radius = Inr c \<and> header c = header this
    \<and> dimension c = dimension this \<and> axis_size c = axis_size this"
  using assms by (auto simp: DataCube_boxcar_def Let_def)

lemma boxcar_keeps:
  assumes "DataCube_boxcar this radius = Inr c"
  shows "header c = header this \<and> axis_size c = axis_size this \<and> data_type c = data_type this
     \<and> data_size c = data_size this"
proof -
  from assms have ty: "data_type this = - 32 \<or> data_type this = - 64"
    by (auto simp: DataCube_boxcar_def Let_def split: if_splits)
  then show ?thesis using assms
    by (cases "data this")
       (auto simp: DataCube_boxcar_def Let_def data_type_def data_size_def split: if_splits)
qed

lemma smoothed_copy_kz_1:
  assumes "smoothed_copy ext this signs maskCube v kxy 0 = Inr c2"
  shows "smoothed_copy ext this signs maskCube v kxy 1 = DataCube_boxcar c2 0"
  using assms by (auto simp: smoothed_copy_def split: sum.splits if_splits)

lemma smoothed_copy_kz_1_source:
  assumes "smoothed_copy ext this signs maskCube v kxy 1 = Inr S"
  shows "\<exists>c2. smoothed_copy ext this signs maskCube v kxy 0 = Inr c2"
  using assms by (auto simp: smoothed_copy_def split: sum.splits if_splits)

lemma boxcar_flat: "DataCube_boxcar flat_cube 0 = Inr flat_cube"
proof -
  have t: "data_type flat_cube = - 64" "data_size flat_cube = 3"
    "axis_size flat_cube = [1, 1, 3, 1]" "data flat_cube = F64 [Fin 0, Fin 0, Fin 0]"
    by (simp_all add: flat_cube_def data_type_def data_size_def)
  have s: "store_of flat_cube = (\<lambda>v. v)" by (simp add: store_of_def t)
  have sp: "spectrum flat_cube 0 0 = [Fin 0, Fin 0, Fin 0]"
    by (simp add: spectrum_def flat_cube_def DataCube_get_index_def upt_rec)
  have c: "contains_nan [Fin 0, Fin 0, Fin 0] = False" by (simp add: contains_nan_def)
  have b: "filter_boxcar_1d (\<lambda>v. v) [Fin 0, Fin 0, Fin 0] (Suc 0) False = [Fin 0, Fin 0, Fin 0]"
    by (simp add: filter_boxcar_1d_def upt_rec)
  have "DataCube_boxcar flat_cube 0 = Inr (flat_cube\<lparr>data := F64 [Fin 0, Fin 0, Fin 0]\<rparr>)"
    by (simp add: DataCube_boxcar_def t s sp c b upt_rec)
  then show ?thesis by (simp add: flat_cube_def)
qed

lemma smoothed_copy_spike:
  "smoothed_copy ext spike_cube signs spike_mask v 0 0 = Inr spike_cube"
proof -
  have "DataCube_set_masked_32 spike_cube signs spike_mask v = Inr spike_cube"
    by (simp add: DataCube_set_masked_32_def spike_cube_def spike_mask_def data_type_def
        data_size_def same_axes_def upt_rec)
  then show ?thesis by (simp add: smoothed_copy_def DataCube_copy_def)
qed

lemma mean_3_spike: "mean_3 spike_cube 0 0 (Suc 0) = Fin 1"
  by (simp add: mean_3_def spike_spectrum zero_nans_def contains_nan_def padded_def)

lemma to_double_0: "to_double (Fin 0) = Fin 0"
  by (simp add: f64_round_def)

lemma dbl_mul_0: "dbl_mul (Fin a) (Fin 0) = Fin 0"
  by (simp add: dbl_mul_def f64_round_def)

lemma every_nth_zeros:
  assumes "0 < c"
  shows "every_nth (replicate n (Fin 0)) c = replicate ((n + c - 1) div c) (Fin 0)"
proof (intro nth_equalityI)
  show "length (every_nth (replicate n (Fin 0)) c) = length (replicate ((n + c - 1) div c) (Fin 0))"
    by (simp add: every_nth_def)
next
  fix i assume "i < length (every_nth (replicate n (Fin 0)) c)"
  then have i: "i < (n + c - 1) div c" by (simp add: every_nth_def)
  then have "Suc i \<le> (n + c - 1) div c" by simp
  then have "Suc i * c \<le> n + c - 1" using assms by (simp add: less_eq_div_iff_mult_less_eq)
  then have "i * c < n" using assms by simp
  then show "every_nth (replicate n (Fin 0)) c ! i = replicate ((n + c - 1) div c) (Fin 0) ! i"
    using i by (simp add: every_nth_def)
qed

lemma std_dev_zeros:
  assumes "0 < c" "0 < n"
  shows "std_dev_val (replicate n (Fin 0)) 0 c (- 1) = Fin 0"
proof -
  define k where "k = (n + c - 1) div c"
  have "c \<le> n + c - 1" using assms by simp
  then have "c div c \<le> (n + c - 1) div c" by (rule div_le_mono)
  then have k: "0 < k" using assms by (simp add: k_def)
  have e: "every_nth (replicate n (Fin 0)) c = replicate k (Fin 0)"
    using every_nth_zeros [OF assms(1)] by (simp add: k_def)
  have f: "filter is_finite (replicate k (Fin 0)) = replicate k (Fin 0)" by simp
  have m: "map the_fin (replicate k (Fin 0)) = replicate k 0" by simp
  have g: "filter (\<lambda>x::real. x \<le> 0) (replicate k 0) = replicate k 0" by simp
  have ne: "replicate k (0::real) \<noteq> []" using k by simp
  show ?thesis
    unfolding std_dev_val_def e f m using ne by (simp add: g Let_def sum_list_replicate)
qed

lemma stat_std_zero_cube:
  assumes "0 < s"
  shows "DataCube_stat_std (zero_cube hdr) 0 s (- 1) = Inr (Fin 0)"
proof -
  have "data_type (zero_cube hdr) = - 32" "flts (data (zero_cube hdr)) = replicate 64 (Fin 0)"
    by (simp_all add: zero_cube_def data_type_def)
  then show ?thesis
    using std_dev_zeros [OF assms, of 64] assms by (simp add: DataCube_stat_std_def)
qed

lemma sampleRms_pos: "sampleRms ext this = Inr s \<Longrightarrow> 0 < s"
  by (auto simp: sampleRms_def split: sum.splits if_splits)

lemma mask_32_threshold_0_never: "DataCube_mask_32 this m (Fin 0) \<noteq> Inr M"
  by (simp add: DataCube_mask_32_def)
section \<open>Properties of the linker\<close>

lemma rev_row: "map (\<lambda>x. x + b) (rev [0..<w]) = rev [b..<b + w]"
  by (simp add: rev_map [symmetric] map_add_upt add.commute)

lemma concat_rev_blocks:
  "concat (map (\<lambda>k. rev [b + k * w..<b + k * w + w]) (rev [0..<h])) = rev [b..<b + h * w]"
proof (induction h)
  case 0
  show ?case by simp
next
  case (Suc h)
  have "[b..<b + Suc h * w] = [b..<b + h * w] @ [b + h * w..<b + h * w + w]"
    using upt_add_eq_append [of b "b + h * w" w] by (simp add: add.commute add.left_commute)
  then show ?case using Suc by simp
qed

lemma scan_idx:
  "map (idx this) (scan_order this)
     = rev [0..<axis_size this ! 0 * axis_size this ! 1 * axis_size this ! 2]"
proof -
  let ?nx = "axis_size this ! 0" and ?ny = "axis_size this ! 1" and ?nz = "axis_size this ! 2"
  have row: "map (\<lambda>x. idx this (x, y, z)) (rev [0..<?nx])
      = rev [?nx * ?ny * z + y * ?nx..<?nx * ?ny * z + y * ?nx + ?nx]" for y z
  proof -
    have "map (\<lambda>x. idx this (x, y, z)) (rev [0..<?nx])
        = map (\<lambda>x. x + (?nx * ?ny * z + y * ?nx)) (rev [0..<?nx])"
      by (simp add: idx_def DataCube_get_index_def algebra_simps)
    then show ?thesis by (simp only: rev_row)
  qed
  have plane: "concat (map (\<lambda>y. map (\<lambda>x. idx this (x, y, z)) (rev [0..<?nx]))
       (rev [0..<?ny])) = rev [0 + z * (?nx * ?ny)..<0 + z * (?nx * ?ny) + ?nx * ?ny]" for z
  proof -
    have "concat (map (\<lambda>y. map (\<lambda>x. idx this (x, y, z)) (rev [0..<?nx])) (rev [0..<?ny]))
       = concat (map (\<lambda>y. rev [?nx * ?ny * z + y * ?nx..<?nx * ?ny * z + y * ?nx + ?nx])
           (rev [0..<?ny]))"
      by (simp only: row)
    also have "\<dots> = rev [?nx * ?ny * z..<?nx * ?ny * z + ?ny * ?nx]"
      by (rule concat_rev_blocks)
    finally show ?thesis by (simp add: mult.commute)
  qed
  have "map (idx this) (scan_order this)
      = concat (map (\<lambda>z. concat (map (\<lambda>y. map (\<lambda>x. idx this (x, y, z)) (rev [0..<?nx]))
           (rev [0..<?ny]))) (rev [0..<?nz]))"
    unfolding scan_order_def by (simp add: map_concat comp_def)
  also have "\<dots> = concat (map (\<lambda>z. rev [0 + z * (?nx * ?ny)..<0 + z * (?nx * ?ny) + ?nx * ?ny])
          (rev [0..<?nz]))"
    by (simp only: plane)
  also have "\<dots> = rev [0..<0 + ?nz * (?nx * ?ny)]" by (rule concat_rev_blocks)
  finally show ?thesis by (simp add: mult.commute mult.left_commute)
qed

lemma mark_run_inv:
  assumes "mark_run this rx ry rz l fs st = Inr st'"
    and "nat l < length (snd st)"
  shows "length (fst st') = length (fst st) \<and> length (snd st') = length (snd st)
    \<and> map label (snd st') = map label (snd st)
    \<and> (\<forall>i<length (fst st). fst st' ! i = fst st ! i \<or> (fst st ! i = 1 \<and> fst st' ! i = l))"
  using assms
proof (induction this rx ry rz l fs st rule: mark_run.induct)
  case (1 this rx ry rz l st)
  then show ?case by (simp add: mark_run.simps)
next
  case (2 this rx ry rz l fs st)
  then show ?case by (simp add: mark_run.simps)
next
  case (3 this rx ry rz l p ns fs st)
  let ?i = "DataCube_get_index this (fst p) (fst (snd p)) (snd (snd p))"
  from "3.prems"(1) have inb: "?i < length (fst st)"
    by (simp add: mark_run.simps split: if_splits)
  show ?case
  proof (cases "fst st ! ?i = 1")
    case False
    then have "mark_run this rx ry rz l (ns # fs) st = Inr st'"
      using "3.prems"(1) inb by (simp add: mark_run.simps)
    then show ?thesis using "3.IH"(2) inb False "3.prems"(2) by simp
  next
    case True
    from "3.prems"(1) True inb have l1: "l \<noteq> 1"
      by (simp add: mark_run.simps split: if_splits)
    obtain lpar where up: "LinkerPar_update (snd st) (nat l) (fst p) (fst (snd p)) (snd (snd p))
        = Inr lpar"
      using "3.prems"(1) True inb l1 by (simp add: mark_run.simps split: sum.splits)
    have run: "mark_run this rx ry rz l
        (neighbours this (fst p) (fst (snd p)) (snd (snd p)) rx ry rz # ns # fs)
        ((fst st)[?i := l], lpar) = Inr st'"
      using "3.prems"(1) True inb l1 up by (simp add: mark_run.simps)
    have lp: "length lpar = length (snd st)" "map label lpar = map label (snd st)"
      using up "3.prems"(2)
      by (auto simp: LinkerPar_update_def map_update list_update_same_conv split: if_splits)
    have IH: "length (fst st') = length ((fst st)[?i := l]) \<and> length (snd st') = length lpar
      \<and> map label (snd st') = map label lpar
      \<and> (\<forall>i<length ((fst st)[?i := l]). fst st' ! i = (fst st)[?i := l] ! i
            \<or> ((fst st)[?i := l] ! i = 1 \<and> fst st' ! i = l))"
      using "3.IH"(1) [OF _ _ l1 up] inb True run lp "3.prems"(2) by simp
    show ?thesis
    proof (intro conjI allI impI)
      fix i assume i: "i < length (fst st)"
      show "fst st' ! i = fst st ! i \<or> fst st ! i = 1 \<and> fst st' ! i = l"
      proof (cases "i = ?i")
        case True2: True
        then show ?thesis using IH i True l1 by (auto simp: nth_list_update)
      next
        case False
        then show ?thesis using IH i by (auto simp: nth_list_update)
      qed
    qed (use IH lp in simp_all)
  qed
qed

lemma wrap32_id: "- (2 ^ 31) \<le> v \<Longrightarrow> v < 2 ^ 31 \<Longrightarrow> wrap32 v = v"
  by (simp add: wrap32_def)

lemma next_label_Suc: "2 \<le> l \<Longrightarrow> l + 1 < 2 ^ 31 \<Longrightarrow> next_label l = l + 1"
  by (simp add: next_label_def wrap32_id)

lemma link_loop_inv:
  assumes "link_loop this rx ry rz ps st = Inr st'"
    and "link_inv this m0 ps st"
    and "int (length m0) + 2 < 2 ^ 31"
  shows "link_inv this m0 [] st'"
  using assms
proof (induction ps arbitrary: st)
  case Nil
  then show ?case by simp
next
  case (Cons p ps)
  obtain x y z where p: "p = (x, y, z)" by (cases p) auto
  obtain m lpar l where st: "st = (m, lpar, l)" by (cases st) auto
  let ?i = "DataCube_get_index this x y z"
  have ip: "idx this p = ?i" by (simp add: idx_def p)
  from Cons.prems(2) have inv:
    "length m = length m0" "length lpar = nat l" "2 \<le> l"
    "l + int (length ps) + 1 \<le> int (length m0) + 2"
    "\<And>i. i < length m0 \<Longrightarrow> (m ! i = 0) = (m0 ! i = 0)"
    "\<And>i. i < length m0 \<Longrightarrow> m ! i = 0 \<or> m ! i = 1 \<or> (2 \<le> m ! i \<and> m ! i < l)"
    "\<And>i. i < length m0 \<Longrightarrow> m ! i = 1 \<Longrightarrow> i = ?i \<or> i \<in> idx this ` set ps"
    "\<And>r. r \<in> set lpar \<Longrightarrow> label r = 0"
    by (auto simp: link_inv_def st ip)
  from Cons.prems(1) have inb: "?i < length m"
    by (simp add: st p split: if_splits)
  show ?case
  proof (cases "m ! ?i = 1")
    case False
    then have run: "link_loop this rx ry rz ps (m, lpar, l) = Inr st'"
      using Cons.prems(1) inb by (simp add: st p)
    have "link_inv this m0 ps (m, lpar, l)"
      unfolding link_inv_def using inv False by auto
    then show ?thesis using Cons.IH [OF run _ Cons.prems(3)] by simp
  next
    case True
    obtain m' lpar' where mark: "DataCube_mark_neighbours this x y z rx ry rz l
        (m[?i := l], LinkerPar_push lpar x y z) = Inr (m', lpar')"
      using Cons.prems(1) inb True inv(3) by (auto simp: st p split: sum.splits)
    have run: "link_loop this rx ry rz ps (m', lpar', next_label l) = Inr st'"
      using Cons.prems(1) inb True inv(3) mark by (simp add: st p)
    have nl: "next_label l = l + 1"
      using inv(3,4) Cons.prems(3) by (intro next_label_Suc) auto
    have mi: "length (fst (m', lpar')) = length (fst (m[?i := l], LinkerPar_push lpar x y z))
      \<and> length (snd (m', lpar')) = length (snd (m[?i := l], LinkerPar_push lpar x y z))
      \<and> map label (snd (m', lpar')) = map label (snd (m[?i := l], LinkerPar_push lpar x y z))
      \<and> (\<forall>i<length (fst (m[?i := l], LinkerPar_push lpar x y z)).
            fst (m', lpar') ! i = fst (m[?i := l], LinkerPar_push lpar x y z) ! i
          \<or> (fst (m[?i := l], LinkerPar_push lpar x y z) ! i = 1 \<and> fst (m', lpar') ! i = l))"
      using mark unfolding DataCube_mark_neighbours_def
      by (rule mark_run_inv) (simp add: LinkerPar_push_def inv(2))
    then have len: "length m' = length m0" "length lpar' = nat l + 1"
      and lab: "map label lpar' = map label lpar @ [0]"
      and px: "\<And>i. i < length m0 \<Longrightarrow> m' ! i = m[?i := l] ! i \<or> (m[?i := l] ! i = 1 \<and> m' ! i = l)"
      by (simp_all add: inv(1,2) LinkerPar_push_def)
    have labs: "\<forall>r\<in>set lpar'. label r = 0"
    proof
      fix r assume "r \<in> set lpar'"
      then have "label r \<in> set (map label lpar')" by simp
      then show "label r = 0" using lab inv(8) by auto
    qed
    have "link_inv this m0 ps (m', lpar', l + 1)"
      unfolding link_inv_def
    proof (simp only: prod.case, intro conjI allI impI)
      show "length m' = length m0" by (rule len)
      show "length lpar' = nat (l + 1)" using len(2) inv(3) by simp
      show "2 \<le> l + 1" using inv(3) by simp
      show "l + 1 + int (length ps) \<le> int (length m0) + 2" using inv(4) by simp
      show "\<forall>r\<in>set lpar'. label r = 0" by (rule labs)
    next
      fix i assume i: "i < length m0"
      show "(m' ! i = 0) = (m0 ! i = 0)"
        using px [OF i] inv(5) [OF i] inv(3) True i inv(1)
        by (cases "i = ?i") (auto simp: nth_list_update)
      show "m' ! i = 0 \<or> m' ! i = 1 \<or> 2 \<le> m' ! i \<and> m' ! i < l + 1"
        using px [OF i] inv(6) [OF i] inv(3) i inv(1)
        by (cases "i = ?i") (auto simp: nth_list_update)
      assume one: "m' ! i = 1"
      show "i \<in> idx this ` set ps"
        using px [OF i] inv(7) [OF i] inv(3) i inv(1) one
        by (cases "i = ?i") (auto simp: nth_list_update)
    qed
    then show ?thesis using Cons.IH [OF _ _ Cons.prems(3)] run nl by simp
  qed
qed

lemma filter_loop_inv:
  assumes "filter_loop this mx my mz ps st = Inr st'"
    and "filter_inv this m0 n1 mx my mz ps st"
    and "int (length m0) + 2 < 2 ^ 31"
  shows "filter_inv this m0 n1 mx my mz [] st'"
  using assms
proof (induction ps arbitrary: st)
  case Nil
  then show ?case by simp
next
  case (Cons p ps)
  obtain x y z where p: "p = (x, y, z)" by (cases p) auto
  obtain m lpar l where st: "st = (m, lpar, l)" by (cases st) auto
  let ?i = "DataCube_get_index this x y z"
  have ip: "idx this p = ?i" by (simp add: idx_def p)
  from Cons.prems(2) have inv:
    "length m = length m0" "length lpar = n1" "1 \<le> l"
    "l + int (length ps) + 1 \<le> int (length m0) + 1"
    "?i \<notin> idx this ` set ps" "distinct (map (idx this) ps)"
    "\<And>i. i < length m0 \<Longrightarrow> i = ?i \<or> i \<in> idx this ` set ps
        \<Longrightarrow> m ! i = 0 \<or> (2 \<le> m ! i \<and> m ! i < int n1)"
    "\<And>i. i < length m0 \<Longrightarrow> i \<noteq> ?i \<Longrightarrow> i \<notin> idx this ` set ps
        \<Longrightarrow> m ! i = 0 \<or> (1 \<le> m ! i \<and> m ! i < l)"
    "\<And>i. i < length m0 \<Longrightarrow> m0 ! i = 0 \<Longrightarrow> m ! i = 0"
    "\<And>k. 1 \<le> k \<Longrightarrow> k < l \<Longrightarrow> \<exists>i<length m0. i \<noteq> ?i \<and> i \<notin> idx this ` set ps \<and> m ! i = k"
    "\<And>j. j < n1 \<Longrightarrow> label (lpar ! j) < nat l"
    "\<And>j j'. j < n1 \<Longrightarrow> j' < n1 \<Longrightarrow> label (lpar ! j) = label (lpar ! j')
        \<Longrightarrow> label (lpar ! j) \<noteq> 0 \<Longrightarrow> j = j'"
    "\<And>k. 1 \<le> k \<Longrightarrow> k < nat l \<Longrightarrow> \<exists>j<n1. label (lpar ! j) = k"
    "\<And>j. j < n1 \<Longrightarrow> label (lpar ! j) \<noteq> 0 \<Longrightarrow> big_enough mx my mz (lpar ! j)"
    by (auto simp: filter_inv_def st ip)
  from Cons.prems(1) have inb: "?i < length m"
    by (simp add: st p split: if_splits)
  then have i0: "?i < length m0" by (simp add: inv(1))
  note IH = Cons.IH [OF _ _ Cons.prems(3)]
  show ?case
  proof (cases "0 < m ! ?i")
    case False
    then have run: "filter_loop this mx my mz ps (m, lpar, l) = Inr st'"
      using Cons.prems(1) inb by (simp add: st p)
    have zero: "m ! ?i = 0" using inv(7) [OF i0] False by auto
    have "filter_inv this m0 n1 mx my mz ps (m, lpar, l)"
      unfolding filter_inv_def
    proof (simp only: prod.case, intro conjI allI impI)
      fix i assume i: "i < length m0" and "i \<notin> idx this ` set ps"
      then show "m ! i = 0 \<or> 1 \<le> m ! i \<and> m ! i < l"
        using inv(8) [of i] zero by (cases "i = ?i") auto
    next
      fix k assume "1 \<le> k \<and> k < l"
      then show "\<exists>i<length m0. i \<notin> idx this ` set ps \<and> m ! i = k"
        using inv(10) [of k] by auto
    qed (use inv in auto)
    then show ?thesis using IH [OF run] by simp
  next
    case True
    define v where "v = nat (m ! ?i)"
    have v: "2 \<le> v" "v < n1" "int v = m ! ?i"
      using inv(7) [OF i0] True by (auto simp: v_def)
    have gets: "LinkerPar_get_size lpar v 0 = Inr (x_max (lpar ! v) - x_min (lpar ! v) + 1)"
      "LinkerPar_get_size lpar v 1 = Inr (y_max (lpar ! v) - y_min (lpar ! v) + 1)"
      "LinkerPar_get_size lpar v 2 = Inr (z_max (lpar ! v) - z_min (lpar ! v) + 1)"
      "LinkerPar_get_label lpar v = Inr (label (lpar ! v))"
      using v inv(2) by (simp_all add: LinkerPar_get_size_def LinkerPar_get_label_def)
    show ?thesis
    proof (cases "big_enough mx my mz (lpar ! v)")
      case False
      then have run: "filter_loop this mx my mz ps (m[?i := 0], lpar, l) = Inr st'"
        using Cons.prems(1) inb True gets
        by (simp add: st p v_def [symmetric] big_enough_def not_le Let_def)
      have "filter_inv this m0 n1 mx my mz ps (m[?i := 0], lpar, l)"
        unfolding filter_inv_def
      proof (simp only: prod.case, intro conjI allI impI)
        fix i assume i: "i < length m0" and "i \<in> idx this ` set ps"
        then show "m[?i := 0] ! i = 0 \<or> 2 \<le> m[?i := 0] ! i \<and> m[?i := 0] ! i < int n1"
          using inv(7) [of i] inv(5) by (cases "i = ?i") auto
      next
        fix i assume i: "i < length m0" and "i \<notin> idx this ` set ps"
        then show "m[?i := 0] ! i = 0 \<or> 1 \<le> m[?i := 0] ! i \<and> m[?i := 0] ! i < l"
          using inv(8) [of i] inv(1) by (cases "i = ?i") auto
      next
        fix i assume i: "i < length m0" and "m0 ! i = 0"
        then show "m[?i := 0] ! i = 0"
          using inv(9) [of i] inv(1) by (cases "i = ?i") auto
      next
        fix k assume "1 \<le> k \<and> k < l"
        then obtain i where "i < length m0" "i \<noteq> ?i" "i \<notin> idx this ` set ps" "m ! i = k"
          using inv(10) [of k] by auto
        then show "\<exists>i<length m0. i \<notin> idx this ` set ps \<and> m[?i := 0] ! i = k"
          by (intro exI [of _ i]) auto
      qed (use inv in auto)
      then show ?thesis using IH [OF run] by simp
    next
      case big: True
      show ?thesis
      proof (cases "label (lpar ! v) = 0")
        case False
        define old where "old = label (lpar ! v)"
        have old: "1 \<le> int old" "int old < l" using False inv(11) [OF v(2)] by (auto simp: old_def)
        have run: "filter_loop this mx my mz ps (m[?i := int old], lpar, l) = Inr st'"
          using Cons.prems(1) inb True gets big False
          by (simp add: st p v_def [symmetric] big_enough_def not_le Let_def old_def)
        have "filter_inv this m0 n1 mx my mz ps (m[?i := int old], lpar, l)"
          unfolding filter_inv_def
        proof (simp only: prod.case, intro conjI allI impI)
          fix i assume i: "i < length m0" and "i \<in> idx this ` set ps"
          then show "m[?i := int old] ! i = 0
              \<or> 2 \<le> m[?i := int old] ! i \<and> m[?i := int old] ! i < int n1"
            using inv(7) [of i] inv(5) by (cases "i = ?i") auto
        next
          fix i assume i: "i < length m0" and "i \<notin> idx this ` set ps"
          then show "m[?i := int old] ! i = 0
              \<or> 1 \<le> m[?i := int old] ! i \<and> m[?i := int old] ! i < l"
            using inv(8) [of i] inv(1) old by (cases "i = ?i") auto
        next
          fix i assume i: "i < length m0" and z: "m0 ! i = 0"
          have "m ! ?i \<noteq> 0" using True by simp
          then have "i \<noteq> ?i" using inv(9) [OF i z] by auto
          then show "m[?i := int old] ! i = 0"
            using inv(9) [OF i z] by simp
        next
          fix k assume "1 \<le> k \<and> k < l"
          then obtain i where "i < length m0" "i \<noteq> ?i" "i \<notin> idx this ` set ps" "m ! i = k"
            using inv(10) [of k] by auto
          then show "\<exists>i<length m0. i \<notin> idx this ` set ps \<and> m[?i := int old] ! i = k"
            by (intro exI [of _ i]) auto
        qed (use inv in auto)
        then show ?thesis using IH [OF run] by simp
      next
        case lab0: True
        define lpar' where "lpar' = lpar[v := (lpar ! v)\<lparr>label := nat l\<rparr>]"
        have set: "LinkerPar_set_label lpar v (nat l) = Inr lpar'"
          using v inv(2) by (simp add: LinkerPar_set_label_def lpar'_def)
        have w: "wrap32 (l + 1) = l + 1"
          using inv(3,4) Cons.prems(3) by (intro wrap32_id) auto
        have run: "filter_loop this mx my mz ps (m[?i := l], lpar', l + 1) = Inr st'"
          using Cons.prems(1) inb True gets big lab0 set w
          by (simp add: st p v_def [symmetric] big_enough_def not_le Let_def)
        have nth': "\<And>j. j < n1 \<Longrightarrow> label (lpar' ! j) = (if j = v then nat l else label (lpar ! j))"
          "\<And>j. j < n1 \<Longrightarrow> big_enough mx my mz (lpar' ! j) = big_enough mx my mz (lpar ! j)"
        proof -
          fix j assume j: "j < n1"
          show "label (lpar' ! j) = (if j = v then nat l else label (lpar ! j))"
            using j inv(2) by (simp add: lpar'_def nth_list_update)
          show "big_enough mx my mz (lpar' ! j) = big_enough mx my mz (lpar ! j)"
            using j inv(2) by (cases "j = v") (simp_all add: lpar'_def big_enough_def)
        qed
        have "filter_inv this m0 n1 mx my mz ps (m[?i := l], lpar', l + 1)"
          unfolding filter_inv_def
        proof (simp only: prod.case, intro conjI allI impI)
          show "length lpar' = n1" by (simp add: lpar'_def inv(2))
        next
          fix i assume i: "i < length m0" and "i \<in> idx this ` set ps"
          then show "m[?i := l] ! i = 0 \<or> 2 \<le> m[?i := l] ! i \<and> m[?i := l] ! i < int n1"
            using inv(7) [of i] inv(5) by (cases "i = ?i") auto
        next
          fix i assume i: "i < length m0" and "i \<notin> idx this ` set ps"
          then show "m[?i := l] ! i = 0 \<or> 1 \<le> m[?i := l] ! i \<and> m[?i := l] ! i < l + 1"
            using inv(8) [of i] inv(1,3) by (cases "i = ?i") auto
        next
          fix i assume i: "i < length m0" and z: "m0 ! i = 0"
          have "m ! ?i \<noteq> 0" using True by simp
          then have "i \<noteq> ?i" using inv(9) [OF i z] by auto
          then show "m[?i := l] ! i = 0"
            using inv(9) [OF i z] by simp
        next
          fix k assume k: "1 \<le> k \<and> k < l + 1"
          show "\<exists>i<length m0. i \<notin> idx this ` set ps \<and> m[?i := l] ! i = k"
          proof (cases "k = l")
            case True
            then show ?thesis using i0 inv(5,1) by (intro exI [of _ ?i]) auto
          next
            case False
            then obtain i where "i < length m0" "i \<noteq> ?i" "i \<notin> idx this ` set ps" "m ! i = k"
              using inv(10) [of k] k by auto
            then show ?thesis by (intro exI [of _ i]) auto
          qed
        next
          fix j assume "j < n1"
          then show "label (lpar' ! j) < nat (l + 1)"
            using inv(11) [of j] inv(3) by (auto simp: nth')
        next
          fix j j' assume j: "j < n1" "j' < n1"
            and "label (lpar' ! j) = label (lpar' ! j') \<and> label (lpar' ! j) \<noteq> 0"
          then show "j = j'"
            using inv(12) [of j j'] inv(11) [of j] inv(11) [of j']
            by (auto simp: nth' split: if_splits)
        next
          fix k assume k: "1 \<le> k \<and> k < nat (l + 1)"
          show "\<exists>j<n1. label (lpar' ! j) = k"
          proof (cases "k = nat l")
            case True
            then show ?thesis using v(2) by (intro exI [of _ v]) (simp add: nth')
          next
            case False
            then have "k < nat l" using k inv(3) by (simp add: nat_add_distrib)
            then obtain j where j: "j < n1" "label (lpar ! j) = k"
              using inv(13) [of k] k by auto
            then have "j \<noteq> v" using lab0 k by auto
            then show ?thesis using j by (intro exI [of _ j]) (simp add: nth')
          qed
        next
          fix j assume "j < n1" "label (lpar' ! j) \<noteq> 0"
          then show "big_enough mx my mz (lpar' ! j)"
            using inv(14) [of j] big by (cases "j = v") (auto simp: nth')
        qed (use inv in auto)
        then show ?thesis using IH [OF run] by simp
      qed
    qed
  qed
qed

lemma lower_bound_eq: "lower_bound x radius = x - radius"
  by (simp add: lower_bound_def)

lemma sub_wrap_small:
  fixes a b W :: nat
  assumes "b \<le> a" "a < W"
  shows "(a + W - b mod W) mod W = a - b"
proof -
  have 1: "b mod W = b" using assms by simp
  have 2: "a + W - b = (a - b) + W" using assms by simp
  have "(a + W - b mod W) mod W = ((a - b) + W) mod W" by (simp only: 1 2)
  also have "\<dots> = (a - b) mod W" by (simp only: mod_add_self2)
  also have "\<dots> = a - b" using assms by (intro mod_less) simp
  finally show ?thesis .
qed

lemma sq_wrap:
  fixes d W :: nat
  assumes "d \<le> W"
  shows "((W - d) * (W - d)) mod W = (d * d) mod W"
proof -
  have "int ((W - d) * (W - d)) = (int W - int d) * (int W - int d)"
    using assms by (simp only: of_nat_mult of_nat_diff)
  also have "\<dots> = int d * int d + int W * (int W - 2 * int d)"
    by (simp add: algebra_simps)
  finally have "int ((W - d) * (W - d)) = int (d * d) + int W * (int W - 2 * int d)"
    by (simp only: of_nat_mult)
  then have "int ((W - d) * (W - d)) mod int W = int (d * d) mod int W"
    by (simp only: mod_mult_self2)
  then have "int (((W - d) * (W - d)) mod W) = int ((d * d) mod W)"
    by (simp only: zmod_int)
  then show ?thesis by (simp only: of_nat_eq_iff)
qed

lemma sub64_small: "b \<le> a \<Longrightarrow> a < 2 ^ 64 \<Longrightarrow> sub64 a b = a - b"
  unfolding sub64_def by (rule sub_wrap_small)

lemma upper_bound_eq:
  assumes "radius < n" "x < n" "n < 2 ^ 64"
  shows "upper_bound n x radius = min (x + radius) (n - 1)"
proof -
  have a: "sub64 n 1 = n - 1" using assms by (intro sub64_small) auto
  have b: "sub64 (n - 1) radius = n - 1 - radius" using assms by (intro sub64_small) auto
  show ?thesis
  proof (cases "x < n - 1 - radius")
    case True
    then have "x + radius < 2 ^ 64" using assms by simp
    then show ?thesis unfolding upper_bound_def a b add64_def using True by simp
  next
    case False
    then show ?thesis unfolding upper_bound_def a b by simp
  qed
qed

lemma square64:
  assumes "a < 2 ^ 31" "b < 2 ^ 31"
  shows "int (mul64 (sub64 a b) (sub64 a b)) = (int a - int b)\<^sup>2"
proof (cases "b \<le> a")
  case True
  then have s: "sub64 a b = a - b" using assms by (intro sub64_small) auto
  have "(a - b) * (a - b) < 2 ^ 31 * 2 ^ 31"
    using assms by (intro mult_strict_mono) auto
  then have "(a - b) * (a - b) < 2 ^ 64" by simp
  then have "mul64 (a - b) (a - b) = (a - b) * (a - b)" unfolding mul64_def by simp
  then show ?thesis using True by (simp add: s power2_eq_square of_nat_diff)
next
  case False
  define d where "d = b - a"
  have d: "0 < d" "d < 2 ^ 31" "int a - int b = - int d" using False assms by (auto simp: d_def)
  have dW: "d \<le> 2 ^ 64" using d(2) by simp
  have s: "sub64 a b = 2 ^ 64 - d"
  proof -
    have "b mod 2 ^ 64 = b" using assms by simp
    moreover have "a + 2 ^ 64 - b = 2 ^ 64 - d" using False unfolding d_def by simp
    ultimately have "sub64 a b = (2 ^ 64 - d) mod 2 ^ 64"
      unfolding sub64_def by (simp only:)
    then show ?thesis using d by simp
  qed
  have dd: "d * d < 2 ^ 31 * 2 ^ 31" using d by (intro mult_strict_mono) auto
  then have "d * d < 2 ^ 64" by simp
  then have "(d * d) mod 2 ^ 64 = d * d" by (rule mod_less)
  then have "mul64 (2 ^ 64 - d) (2 ^ 64 - d) = d * d"
    unfolding mul64_def using sq_wrap [OF dW] by (simp only:)
  then show ?thesis by (simp add: s d(3) power2_eq_square)
qed

lemma skipped_eq:
  assumes "x < 2 ^ 31" "y < 2 ^ 31" "xx < 2 ^ 31" "yy < 2 ^ 31" "radius_x * radius_y < 2 ^ 64"
  shows "skipped x y radius_x radius_y xx yy
    = ((int xx - int x)\<^sup>2 + (int yy - int y)\<^sup>2 < int (radius_x * radius_y))"
proof -
  define a where "a = mul64 (sub64 xx x) (sub64 xx x)"
  define b where "b = mul64 (sub64 yy y) (sub64 yy y)"
  have a: "int a = (int xx - int x)\<^sup>2" unfolding a_def using assms by (intro square64)
  have b: "int b = (int yy - int y)\<^sup>2" unfolding b_def using assms by (intro square64)
  have bound: "\<bar>int u - int v\<bar> < 2 ^ 31" if "u < 2 ^ 31" "v < 2 ^ 31" for u v :: nat
    using that by auto
  have sq: "(int u - int v)\<^sup>2 < 2 ^ 62" if "u < 2 ^ 31" "v < 2 ^ 31" for u v :: nat
  proof -
    have "\<bar>int u - int v\<bar> * \<bar>int u - int v\<bar> < 2 ^ 31 * 2 ^ 31"
      using bound [OF that] by (intro mult_strict_mono) auto
    then show ?thesis by (simp add: power2_eq_square abs_mult_self_eq)
  qed
  have "int a < 2 ^ 62" "int b < 2 ^ 62" using sq assms a b by auto
  then have "a + b < 2 ^ 64" by simp
  then have "add64 a b = a + b" by (simp add: add64_def)
  moreover have "mul64 radius_x radius_y = radius_x * radius_y"
    using assms by (simp add: mul64_def)
  ultimately have "skipped x y radius_x radius_y xx yy = (a + b < radius_x * radius_y)"
    by (simp add: skipped_def a_def b_def)
  also have "\<dots> = (int a + int b < int (radius_x * radius_y))"
    by (simp only: of_nat_add [symmetric] of_nat_less_iff)
  finally show ?thesis by (simp only: a b)
qed

lemma distinct_map_sort_key: "distinct (map f (sort_key f xs)) = distinct (map f xs)"
  by (induction xs) (simp_all add: distinct_insort_key)

lemma distinct_map_filter_nth:
  assumes "\<And>j j'. j < length xs \<Longrightarrow> j' < length xs \<Longrightarrow> f (xs ! j) = f (xs ! j')
      \<Longrightarrow> P (xs ! j) \<Longrightarrow> j = j'"
  shows "distinct (map f (filter P xs))"
  using assms
proof (induction xs)
  case Nil
  show ?case by simp
next
  case (Cons x xs)
  have tl: "distinct (map f (filter P xs))"
  proof (rule Cons.IH)
    fix j j' assume "j < length xs" "j' < length xs" "f (xs ! j) = f (xs ! j')" "P (xs ! j)"
    then have "Suc j = Suc j'" by (intro Cons.prems) auto
    then show "j = j'" by simp
  qed
  have "f x \<notin> f ` set (filter P xs)" if "P x"
  proof
    assume "f x \<in> f ` set (filter P xs)"
    then obtain y where "y \<in> set xs" "f y = f x" by auto
    then obtain j where "j < length xs" "xs ! j = y" by (auto simp: in_set_conv_nth)
    then have "0 = Suc j" using \<open>f y = f x\<close> that by (intro Cons.prems) auto
    then show False by simp
  qed
  then show ?case using tl by simp
qed

lemma reduce_labels:
  assumes "filter_inv this m0 n1 mx my mz [] (m, lpar, l)"
  shows "map label (LinkerPar_reduce lpar) = [1..<nat l]"
    and "\<forall>r\<in>set (LinkerPar_reduce lpar). big_enough mx my mz r"
proof -
  from assms have inv: "length lpar = n1" "1 \<le> l"
    "\<And>j. j < n1 \<Longrightarrow> label (lpar ! j) < nat l"
    "\<And>j j'. j < n1 \<Longrightarrow> j' < n1 \<Longrightarrow> label (lpar ! j) = label (lpar ! j')
        \<Longrightarrow> label (lpar ! j) \<noteq> 0 \<Longrightarrow> j = j'"
    "\<And>k. 1 \<le> k \<Longrightarrow> k < nat l \<Longrightarrow> \<exists>j<n1. label (lpar ! j) = k"
    "\<And>j. j < n1 \<Longrightarrow> label (lpar ! j) \<noteq> 0 \<Longrightarrow> big_enough mx my mz (lpar ! j)"
    by (auto simp: filter_inv_def)
  let ?nz = "filter (\<lambda>r. label r \<noteq> 0) lpar"
  have d: "distinct (map label ?nz)"
    by (rule distinct_map_filter_nth) (use inv(1,4) in auto)
  have s: "set (map label ?nz) = set [1..<nat l]"
  proof (intro equalityI subsetI)
    fix k assume "k \<in> set (map label ?nz)"
    then obtain r where "r \<in> set lpar" "label r \<noteq> 0" "label r = k" by auto
    then obtain j where "j < n1" "lpar ! j = r" using inv(1) by (auto simp: in_set_conv_nth)
    then show "k \<in> set [1..<nat l]"
      using inv(3) [of j] \<open>label r \<noteq> 0\<close> \<open>label r = k\<close> by auto
  next
    fix k assume "k \<in> set [1..<nat l]"
    then have k: "1 \<le> k" "k < nat l" by auto
    then obtain j where j: "j < n1" "label (lpar ! j) = k" using inv(5) by blast
    then have "lpar ! j \<in> set ?nz" using inv(1) k by auto
    then show "k \<in> set (map label ?nz)" using j(2) by force
  qed
  have "sorted (map label (sort_key label ?nz))" by simp
  moreover have "distinct (map label (sort_key label ?nz))"
    using d by (simp only: distinct_map_sort_key)
  moreover have "set (map label (sort_key label ?nz)) = set [1..<nat l]"
    using s by simp
  ultimately show "map label (LinkerPar_reduce lpar) = [1..<nat l]"
    unfolding LinkerPar_reduce_def
    by (intro sorted_distinct_set_unique) simp_all
  show "\<forall>r\<in>set (LinkerPar_reduce lpar). big_enough mx my mz r"
  proof
    fix r assume "r \<in> set (LinkerPar_reduce lpar)"
    then have r: "r \<in> set lpar" "label r \<noteq> 0" by (auto simp: LinkerPar_reduce_def)
    then obtain j where "j < n1" "lpar ! j = r" using inv(1) by (auto simp: in_set_conv_nth)
    then show "big_enough mx my mz r" using inv(6) [of j] r(2) by auto
  qed
qed

lemma linker_result_props:
  assumes res: "linker_result this rx ry rz mx my mz = Inr (M, T)"
    and wf: "wf_cube this"
    and bin: "set (ints (data this)) \<subseteq> {0, 1}"
    and small: "int (data_size this) + 2 < 2 ^ 31"
  shows "\<exists>m K. M = this\<lparr>data := I32 m\<rparr> \<and> length m = data_size this
    \<and> (\<forall>i<data_size this. m ! i = 0 \<or> (1 \<le> m ! i \<and> m ! i \<le> int K))
    \<and> (\<forall>k. 1 \<le> k \<and> k \<le> K \<longrightarrow> (\<exists>i<data_size this. m ! i = int k))
    \<and> (\<forall>i<data_size this. ints (data this) ! i = 0 \<longrightarrow> m ! i = 0)
    \<and> map label T = [1..<Suc K]
    \<and> (\<forall>r\<in>set T. big_enough mx my mz r)"
proof -
  let ?m0 = "ints (data this)"
  let ?lp0 = "LinkerPar_push (LinkerPar_push LinkerPar_new 0 0 0) 0 0 0"
  from res have ty: "data_type this = 32" by (simp add: linker_result_def split: if_splits)
  then have n: "length ?m0 = data_size this"
    by (cases "data this") (simp_all add: data_type_def data_size_def)
  have prod: "axis_size this ! 0 * axis_size this ! 1 * axis_size this ! 2 = length ?m0"
    using wf n by (simp add: wf_cube_def)
  have scan: "map (idx this) (scan_order this) = rev [0..<length ?m0]"
    using scan_idx [of this] by (simp only: prod)
  then have len: "length (scan_order this) = length ?m0"
    using length_map [of "idx this" "scan_order this"] by simp
  have img: "idx this ` set (scan_order this) = {..<length ?m0}"
    using arg_cong [OF scan, of set] by (simp add: atLeast0LessThan)
  obtain m1 lp1 l1 where one: "link_loop this rx ry rz (scan_order this) (?m0, ?lp0, 2)
      = Inr (m1, lp1, l1)"
    using res ty by (auto simp: linker_result_def split: sum.splits)
  obtain m2 lp2 l2 where two: "filter_loop this mx my mz (scan_order this) (m1, lp1, 1)
      = Inr (m2, lp2, l2)"
    using res ty one by (auto simp: linker_result_def split: sum.splits)
  have MT: "M = this\<lparr>data := I32 m2\<rparr>" "T = LinkerPar_reduce lp2"
    using res ty one two by (simp_all add: linker_result_def)
  have small': "int (length ?m0) + 2 < 2 ^ 31" using small n by simp
  have "link_inv this ?m0 (scan_order this) (?m0, ?lp0, 2)"
    unfolding link_inv_def using bin len img
    by (auto simp: LinkerPar_push_def LinkerPar_new_def dest: nth_mem)
  from link_loop_inv [OF one this small']
  have inv1: "length m1 = length ?m0" "length lp1 = nat l1" "2 \<le> l1"
    "\<And>i. i < length ?m0 \<Longrightarrow> (m1 ! i = 0) = (?m0 ! i = 0)"
    "\<And>i. i < length ?m0 \<Longrightarrow> m1 ! i = 0 \<or> (2 \<le> m1 ! i \<and> m1 ! i < l1)"
    "\<And>r. r \<in> set lp1 \<Longrightarrow> label r = 0"
    by (auto simp: link_inv_def)
  have "filter_inv this ?m0 (nat l1) mx my mz (scan_order this) (m1, lp1, 1)"
    unfolding filter_inv_def
  proof (simp only: prod.case, intro conjI allI impI)
    show "distinct (map (idx this) (scan_order this))" by (simp add: scan)
    show "1 + int (length (scan_order this)) \<le> int (length ?m0) + 1" by (simp add: len)
  next
    fix i assume "i < length ?m0"
    then show "m1 ! i = 0 \<or> 2 \<le> m1 ! i \<and> m1 ! i < int (nat l1)"
      using inv1(5) [of i] inv1(3) by auto
  next
    fix i assume "i < length ?m0" "i \<notin> idx this ` set (scan_order this)"
    then show "m1 ! i = 0 \<or> 1 \<le> m1 ! i \<and> m1 ! i < 1" by (simp add: img)
  next
    fix i assume "i < length ?m0" "?m0 ! i = 0"
    then show "m1 ! i = 0" using inv1(4) by simp
  next
    fix j assume "j < nat l1"
    then have "lp1 ! j \<in> set lp1" using inv1(2) by simp
    then show "label (lp1 ! j) < nat 1" using inv1(6) by simp
  next
    fix j j' assume "j < nat l1" "label (lp1 ! j) = label (lp1 ! j') \<and> label (lp1 ! j) \<noteq> 0"
    moreover from this have "lp1 ! j \<in> set lp1" using inv1(2) by simp
    ultimately show "j = j'" using inv1(6) by auto
  next
    fix j assume "j < nat l1" "label (lp1 ! j) \<noteq> 0"
    moreover from this have "lp1 ! j \<in> set lp1" using inv1(2) by simp
    ultimately show "big_enough mx my mz (lp1 ! j)" using inv1(6) by auto
  qed (use inv1 in auto)
  from filter_loop_inv [OF two this small']
  have inv2: "filter_inv this ?m0 (nat l1) mx my mz [] (m2, lp2, l2)" .
  then have fin: "length m2 = length ?m0" "1 \<le> l2"
    "\<And>i. i < length ?m0 \<Longrightarrow> m2 ! i = 0 \<or> (1 \<le> m2 ! i \<and> m2 ! i < l2)"
    "\<And>i. i < length ?m0 \<Longrightarrow> ?m0 ! i = 0 \<Longrightarrow> m2 ! i = 0"
    "\<And>k. 1 \<le> k \<Longrightarrow> k < l2 \<Longrightarrow> \<exists>i<length ?m0. m2 ! i = k"
    by (auto simp: filter_inv_def)
  define K where "K = nat l2 - 1"
  have K: "l2 = int K + 1" "nat l2 = Suc K" using fin(2) by (auto simp: K_def)
  have vals: "\<forall>i<data_size this. m2 ! i = 0 \<or> (1 \<le> m2 ! i \<and> m2 ! i \<le> int K)"
    using fin(3) n K by fastforce
  have occ: "\<forall>k. 1 \<le> k \<and> k \<le> K \<longrightarrow> (\<exists>i<data_size this. m2 ! i = int k)"
  proof (intro allI impI)
    fix k assume "1 \<le> k \<and> k \<le> K"
    then show "\<exists>i<data_size this. m2 ! i = int k"
      using fin(5) [of "int k"] n K by auto
  qed
  have zer: "\<forall>i<data_size this. ints (data this) ! i = 0 \<longrightarrow> m2 ! i = 0"
    using fin(4) n by simp
  have lab: "map label T = [1..<Suc K]"
    using reduce_labels(1) [OF inv2] by (simp only: MT K(2))
  have big: "\<forall>r\<in>set T. big_enough mx my mz r"
    using reduce_labels(2) [OF inv2] MT by simp
  have "length m2 = data_size this" using fin(1) n by simp
  then show ?thesis
    using MT(1) vals occ zer lab big by blast
qed

lemma col_mask_simps [simp]: "axis_size col_mask = [2, 2, 2, 1]"
  "data col_mask = I32 [1, 0, 0, 0, 1, 0, 0, 0]"
  by (simp_all add: col_mask_def)

lemma col_scan: "scan_order col_mask
    = [(1, 1, 1), (0, 1, 1), (1, 0, 1), (0, 0, 1), (1, 1, 0), (0, 1, 0), (1, 0, 0), (0, 0, 0)]"
  by (simp add: scan_order_def upt_conv_Cons)

lemma col_bounds: "upper_bound 2 x (Suc 0) = Suc 0" "upper_bound 2 0 0 = 0"
    "upper_bound 2 (Suc 0) 0 = Suc 0"
  if "x < 2"
  using that upper_bound_eq [of "Suc 0" 2 x] upper_bound_eq [of 0 2 0] upper_bound_eq [of 0 2 "Suc 0"]
  by auto

lemma col_skipped_1: "skipped 0 0 (Suc 0) (Suc 0) xx yy = (xx = 0 \<and> yy = 0)" if "xx < 2" "yy < 2"
proof -
  have "skipped 0 0 (Suc 0) (Suc 0) xx yy = ((int xx - int 0)\<^sup>2 + (int yy - int 0)\<^sup>2 < int (Suc 0 * Suc 0))"
    using that by (intro skipped_eq) auto
  moreover have "xx = 0 \<or> xx = 1" "yy = 0 \<or> yy = 1" using that by auto
  ultimately show ?thesis by auto
qed

lemma col_skipped_0: "skipped x y 0 0 xx yy = False"
  by (simp add: skipped_def mul64_def)

lemma col_neighbours_1:
  "z < 2 \<Longrightarrow> neighbours col_mask 0 0 z (Suc 0) (Suc 0) (Suc 0)
     = [(Suc 0, 0, 0), (0, Suc 0, 0), (Suc 0, Suc 0, 0), (Suc 0, 0, Suc 0), (0, Suc 0, Suc 0), (Suc 0, Suc 0, Suc 0)]"
  by (simp add: neighbours_def lower_bound_eq col_bounds col_skipped_1 upt_conv_Cons)

lemma col_neighbours_0:
  "z < 2 \<Longrightarrow> neighbours col_mask 0 0 z 0 0 (Suc 0) = [(0, 0, 0), (0, 0, Suc 0)]"
  by (simp add: neighbours_def lower_bound_eq col_bounds col_skipped_0 upt_conv_Cons)

lemma list_update_Cons_numeral:
  "(x # xs)[numeral k := y] = x # xs[pred_numeral k := y]"
  by (simp add: numeral_eq_Suc)

lemma col_table_0:
  "LinkerPar_push (LinkerPar_push LinkerPar_new 0 0 0) 0 0 0 = [col_dummy, col_dummy]"
  by (simp add: LinkerPar_push_def LinkerPar_new_def uint16_def col_dummy_def)

lemma label_col_dummy: "label col_dummy = 0"
  by (simp add: col_dummy_def)

lemma col_mark_1: "DataCube_mark_neighbours col_mask 0 0 (Suc 0) (Suc 0) (Suc 0) (Suc 0) 2
     ([1, 0, 0, 0, 2, 0, 0, 0], lpar) = Inr ([1, 0, 0, 0, 2, 0, 0, 0], lpar)"
  by (simp add: DataCube_mark_neighbours_def col_neighbours_1 mark_run.simps DataCube_get_index_def)

lemma col_mark_2: "DataCube_mark_neighbours col_mask 0 0 0 (Suc 0) (Suc 0) (Suc 0) 3
     ([3, 0, 0, 0, 2, 0, 0, 0], lpar) = Inr ([3, 0, 0, 0, 2, 0, 0, 0], lpar)"
  by (simp add: DataCube_mark_neighbours_def col_neighbours_1 mark_run.simps DataCube_get_index_def)

lemma col_link_1: "link_loop col_mask (Suc 0) (Suc 0) (Suc 0) (scan_order col_mask)
     ([1, 0, 0, 0, 1, 0, 0, 0], [col_dummy, col_dummy], 2)
   = Inr ([3, 0, 0, 0, 2, 0, 0, 0],
       [col_dummy, col_dummy, col_dummy\<lparr>z_min := Suc 0, z_max := Suc 0\<rparr>, col_dummy], 4)"
  by (simp add: col_scan DataCube_get_index_def col_mark_1 col_mark_2 LinkerPar_push_def
        next_label_def wrap32_def uint16_def col_dummy_def list_update_Cons_numeral)

lemma col_filter_1: "filter_loop col_mask (Suc 0) (Suc 0) (Suc 0) (scan_order col_mask)
     ([3, 0, 0, 0, 2, 0, 0, 0],
      [col_dummy, col_dummy, col_dummy\<lparr>z_min := Suc 0, z_max := Suc 0\<rparr>, col_dummy], 1)
   = Inr ([2, 0, 0, 0, 1, 0, 0, 0],
       [col_dummy, col_dummy, col_dummy\<lparr>label := Suc 0, z_min := Suc 0, z_max := Suc 0\<rparr>,
        col_dummy\<lparr>label := 2\<rparr>], 3)"
  by (simp add: col_scan DataCube_get_index_def LinkerPar_get_size_def LinkerPar_get_label_def
        LinkerPar_set_label_def wrap32_def col_dummy_def list_update_Cons_numeral)

lemma col_linked_1: "linker_result col_mask 1 1 1 1 1 1
   = Inr (col_mask\<lparr>data := I32 [2, 0, 0, 0, 1, 0, 0, 0]\<rparr>,
       [col_dummy\<lparr>label := Suc 0, z_min := Suc 0, z_max := Suc 0\<rparr>, col_dummy\<lparr>label := 2\<rparr>])"
  by (simp add: linker_result_def data_type_def col_table_0 col_link_1 col_filter_1
        LinkerPar_reduce_def label_col_dummy)

lemma col_mark_3: "DataCube_mark_neighbours col_mask 0 0 (Suc 0) 0 0 (Suc 0) 2
     ([1, 0, 0, 0, 2, 0, 0, 0], [col_dummy, col_dummy, col_dummy\<lparr>z_min := Suc 0, z_max := Suc 0\<rparr>])
   = Inr ([2, 0, 0, 0, 2, 0, 0, 0],
       [col_dummy, col_dummy, col_dummy\<lparr>n_pix := 2, z_min := 0, z_max := Suc 0\<rparr>])"
  by (simp add: DataCube_mark_neighbours_def col_neighbours_0 mark_run.simps DataCube_get_index_def
        LinkerPar_update_def uint16_def col_dummy_def list_update_Cons_numeral)

lemma col_link_0: "link_loop col_mask 0 0 (Suc 0) (scan_order col_mask)
     ([1, 0, 0, 0, 1, 0, 0, 0], [col_dummy, col_dummy], 2)
   = Inr ([2, 0, 0, 0, 2, 0, 0, 0],
       [col_dummy, col_dummy, col_dummy\<lparr>n_pix := 2, z_min := 0, z_max := Suc 0\<rparr>], 3)"
  using col_mark_3
  by (simp add: col_scan DataCube_get_index_def LinkerPar_push_def
        next_label_def wrap32_def uint16_def col_dummy_def list_update_Cons_numeral)

lemma col_filter_0: "filter_loop col_mask (Suc 0) (Suc 0) (Suc 0) (scan_order col_mask)
     ([2, 0, 0, 0, 2, 0, 0, 0],
      [col_dummy, col_dummy, col_dummy\<lparr>n_pix := 2, z_min := 0, z_max := Suc 0\<rparr>], 1)
   = Inr ([1, 0, 0, 0, 1, 0, 0, 0],
       [col_dummy, col_dummy, col_dummy\<lparr>label := Suc 0, n_pix := 2, z_min := 0, z_max := Suc 0\<rparr>], 2)"
  by (simp add: col_scan DataCube_get_index_def LinkerPar_get_size_def LinkerPar_get_label_def
        LinkerPar_set_label_def wrap32_def col_dummy_def list_update_Cons_numeral)

lemma col_linked_0: "linker_result col_mask 0 0 1 1 1 1
   = Inr (col_mask\<lparr>data := I32 [1, 0, 0, 0, 1, 0, 0, 0]\<rparr>,
       [col_dummy\<lparr>label := Suc 0, n_pix := 2, z_min := 0, z_max := Suc 0\<rparr>])"
  by (simp add: linker_result_def data_type_def col_table_0 col_link_0 col_filter_0
        LinkerPar_reduce_def label_col_dummy)

lemma col_mask_wf: "wf_cube col_mask" "data_type col_mask = 32" "data_size col_mask = 8"
  by (simp_all add: wf_cube_def data_type_def data_size_def)

lemma run_linker_result:
  "DataCube_run_linker this rx ry rz mx my mz = Inr (M, tbl)
    \<longleftrightarrow> tbl = None \<and> (\<exists>T. linker_result this rx ry rz mx my mz = Inr (M, T))"
  by (auto simp: DataCube_run_linker_def split: sum.splits)










text \<open>
  Claim C4, as amended. For a well-formed floating-point cube, an integer mask cube with
  the same axis sizes and a threshold above 0, \<^verbatim>\<open>DataCube_mask\<close> (and \<^verbatim>\<open>DataCube_mask_32\<close>
  on a 32-bit mask) returns the mask cube with entry \<open>i\<close> set to 1 exactly where the
  absolute value of data pixel \<open>i\<close> is strictly above the threshold the loop compares
  with: the threshold itself for a double-precision cube, the threshold narrowed to
  single precision for a single-precision cube. Every other entry keeps its previous
  value, and so does the entry of every NaN pixel.
\<close>

theorem DataCube_mask_sets_above_threshold:
  assumes "wf_cube this" "wf_cube maskCube"
    and "data_type this = - 32 \<or> data_type this = - 64"
    and "data_type maskCube = 8 \<or> data_type maskCube = 16 \<or> data_type maskCube = 32
         \<or> data_type maskCube = 64"
    and "same_axes this maskCube"
    and "fp_less (Fin 0) threshold"
  shows "\<exists>M. DataCube_mask this maskCube threshold = Inr M
     \<and> (data_type maskCube = 32 \<longrightarrow> DataCube_mask_32 this maskCube threshold = Inr M)
     \<and> header M = header maskCube \<and> axis_size M = axis_size maskCube
     \<and> data_type M = data_type maskCube
     \<and> length (ints (data M)) = length (ints (data maskCube))
     \<and> (\<forall>i<data_size this. ints (data M) ! i =
          (if fp_less (if data_type this = - 32 then to_float threshold else threshold)
                (fp_abs (flts (data this) ! i))
           then 1 else ints (data maskCube) ! i))
     \<and> (\<forall>i<data_size this. is_nan (flts (data this) ! i) \<longrightarrow>
          ints (data M) ! i = ints (data maskCube) ! i)"
proof -
  obtain m' where m': "mask_pixels this maskCube threshold
        = Inr (maskCube\<lparr>data := with_ints (data maskCube) m'\<rparr>)"
      "length m' = length (ints (data maskCube))"
      "ints (with_ints (data maskCube) m') = m'"
      "payload_type (with_ints (data maskCube) m') = payload_type (data maskCube)"
      "\<forall>i<data_size this. m' ! i =
          (if fp_less (thresh_pos this threshold) (fp_abs (flts (data this) ! i)) then 1
           else ints (data maskCube) ! i)"
    using mask_pixels_result [OF assms] by blast
  let ?M = "maskCube\<lparr>data := with_ints (data maskCube) m'\<rparr>"
  have 1: "DataCube_mask this maskCube threshold = Inr ?M"
    using assms(3-6) m'(1) by (simp add: DataCube_mask_def)
  have 2: "data_type maskCube = 32 \<longrightarrow> DataCube_mask_32 this maskCube threshold = Inr ?M"
    using assms(3-6) m'(1) by (simp add: DataCube_mask_32_def)
  have 3: "\<forall>i<data_size this. is_nan (flts (data this) ! i) \<longrightarrow> m' ! i = ints (data maskCube) ! i"
  proof (intro allI impI)
    fix i assume "i < data_size this" "is_nan (flts (data this) ! i)"
    then show "m' ! i = ints (data maskCube) ! i"
      using m'(5) by (cases "flts (data this) ! i") simp_all
  qed
  show ?thesis
    using 1 2 3 m'(2-5) by (intro exI [of _ ?M]) (simp add: data_type_def thresh_pos_def)
qed

text \<open>The theorem at a single-precision cube with the pixels 5, NaN and -7 and threshold 6.\<close>

theorem DataCube_mask_sets_above_threshold_witness:
  "wf_cube ex_data \<and> wf_cube ex_mask \<and> data_type ex_data = - 32 \<and> data_type ex_mask = 32
   \<and> same_axes ex_data ex_mask \<and> fp_less (Fin 0) (Fin 6)
   \<and> (\<exists>M. DataCube_mask ex_data ex_mask (Fin 6) = Inr M
          \<and> DataCube_mask_32 ex_data ex_mask (Fin 6) = Inr M \<and> ints (data M) = [0, 1, 1])"
proof -
  have pos: "fp_less (Fin 0) (Fin 6)" by simp
  obtain M where M: "DataCube_mask ex_data ex_mask (Fin 6) = Inr M"
      "DataCube_mask_32 ex_data ex_mask (Fin 6) = Inr M"
      "length (ints (data M)) = length (ints (data ex_mask))"
      "\<forall>i<data_size ex_data. ints (data M) ! i =
          (if fp_less (if data_type ex_data = - 32 then to_float (Fin 6) else Fin 6)
                (fp_abs (flts (data ex_data) ! i))
           then 1 else ints (data ex_mask) ! i)"
    using DataCube_mask_sets_above_threshold [of ex_data ex_mask "Fin 6"] ex_cubes_wf pos
    by auto
  have "ints (data M) ! 0 = 0" "ints (data M) ! 1 = 1" "ints (data M) ! 2 = 1"
    using M(4) ex_cubes_wf(3,6) by (simp_all add: to_float_6 del: to_float.simps) (simp_all add: ex_data_def ex_mask_def)
  moreover have "length (ints (data M)) = 3" using M(3) by (simp add: ex_mask_def)
  ultimately have "ints (data M) = [0, 1, 1]" by (intro list3_eqI)
  then show ?thesis using M(1,2) ex_cubes_wf pos by blast
qed

text \<open>
  Claim C4 as stated fails on a single-precision cube: the pixel \<open>1 + 1 / 2 ^ 23\<close> is
  strictly above the threshold \<open>1 + 1 / 2 ^ 23 - 1 / 2 ^ 40\<close>, but the threshold narrows to
  the pixel value itself, the comparison of the loop fails and the mask entry stays 0.
\<close>

theorem DataCube_mask_exact_counterexample:
  "wf_cube c4_data \<and> wf_cube c4_mask \<and> data_type c4_data = - 32 \<and> data_type c4_mask = 32
   \<and> same_axes c4_data c4_mask \<and> fp_less (Fin 0) (Fin c4_level)
   \<and> fp_less (Fin c4_level) (fp_abs (flts (data c4_data) ! 0))
   \<and> ints (data c4_mask) ! 0 = 0
   \<and> DataCube_mask c4_data c4_mask (Fin c4_level) = Inr c4_mask
   \<and> DataCube_mask_32 c4_data c4_mask (Fin c4_level) = Inr c4_mask"
proof -
  have fl: "is_float (Fin c4_pixel)"
    using c4_pixel_bounds by (simp add: is_float_def f32_round_c4_pixel)
  have tn: "to_float (Fin (- c4_level)) = Fin (- c4_pixel)"
    using to_float_neg [of "Fin c4_level"] by (simp add: to_float_c4_level del: to_float.simps)
  have m: "mask_pixels c4_data c4_mask (Fin c4_level) = Inr c4_mask"
    using tn c4_pixel_bounds
    by (simp add: mask_pixels_def thresh_pos_def thresh_neg_def to_float_c4_level data_type_def
        data_size_def c4_data_def c4_mask_def del: to_float.simps)
  show ?thesis
    using fl m c4_pixel_bounds
    by (simp add: DataCube_mask_def DataCube_mask_32_def wf_cube_def data_type_def data_size_def
        same_axes_def c4_data_def c4_mask_def)
qed

text \<open>
  Claim C5. Masking is idempotent: masking the result again with the same data and
  threshold returns it unchanged. It is monotone in the threshold: from the same data
  and the same initial mask, every entry that is 1 after masking with the higher
  threshold \<open>t2\<close> is 1 after masking with the lower threshold \<open>t1\<close>.
\<close>

theorem DataCube_mask_idempotent_monotone:
  assumes "wf_cube this" "wf_cube maskCube"
    and "data_type this = - 32 \<or> data_type this = - 64"
    and "data_type maskCube = 8 \<or> data_type maskCube = 16 \<or> data_type maskCube = 32
         \<or> data_type maskCube = 64"
    and "same_axes this maskCube"
    and "fp_less (Fin 0) t1" and "fp_le t1 t2"
  shows "\<exists>M1 M2. DataCube_mask this maskCube t1 = Inr M1
     \<and> DataCube_mask this M1 t1 = Inr M1
     \<and> DataCube_mask this maskCube t2 = Inr M2
     \<and> (data_type maskCube = 32 \<longrightarrow>
          DataCube_mask_32 this maskCube t1 = Inr M1 \<and> DataCube_mask_32 this M1 t1 = Inr M1
          \<and> DataCube_mask_32 this maskCube t2 = Inr M2)
     \<and> {i. i < data_size this \<and> ints (data M2) ! i = 1}
          \<subseteq> {i. i < data_size this \<and> ints (data M1) ! i = 1}"
proof -
  have t2: "fp_less (Fin 0) t2" using assms(6,7) by (rule fp_less_le_trans)
  obtain m1 where m1: "mask_pixels this maskCube t1
        = Inr (maskCube\<lparr>data := with_ints (data maskCube) m1\<rparr>)"
      "ints (with_ints (data maskCube) m1) = m1"
      "\<forall>i<data_size this. m1 ! i =
          (if fp_less (thresh_pos this t1) (fp_abs (flts (data this) ! i)) then 1
           else ints (data maskCube) ! i)"
    using mask_pixels_result [OF assms(1-6)] by blast
  obtain m2 where m2: "mask_pixels this maskCube t2
        = Inr (maskCube\<lparr>data := with_ints (data maskCube) m2\<rparr>)"
      "ints (with_ints (data maskCube) m2) = m2"
      "\<forall>i<data_size this. m2 ! i =
          (if fp_less (thresh_pos this t2) (fp_abs (flts (data this) ! i)) then 1
           else ints (data maskCube) ! i)"
    using mask_pixels_result [OF assms(1-5) t2] by blast
  let ?M1 = "maskCube\<lparr>data := with_ints (data maskCube) m1\<rparr>"
  let ?M2 = "maskCube\<lparr>data := with_ints (data maskCube) m2\<rparr>"
  have idem: "mask_pixels this ?M1 t1 = Inr ?M1" "data_type ?M1 = data_type maskCube"
      "same_axes this ?M1"
    using mask_pixels_idem [OF assms(1-6) m1(1)] by simp_all
  have a: "DataCube_mask this maskCube t1 = Inr ?M1"
    using assms(3-6) m1(1) by (simp add: DataCube_mask_def)
  have b: "DataCube_mask this ?M1 t1 = Inr ?M1"
    using assms(3,4,6) idem by (simp add: DataCube_mask_def)
  have c: "DataCube_mask this maskCube t2 = Inr ?M2"
    using assms(3-5) t2 m2(1) by (simp add: DataCube_mask_def)
  have d: "data_type maskCube = 32 \<longrightarrow>
          DataCube_mask_32 this maskCube t1 = Inr ?M1 \<and> DataCube_mask_32 this ?M1 t1 = Inr ?M1
          \<and> DataCube_mask_32 this maskCube t2 = Inr ?M2"
    using assms(3-6) t2 m1(1) m2(1) idem by (simp add: DataCube_mask_32_def)
  have e: "m1 ! i = 1" if "i < data_size this" "m2 ! i = 1" for i
  proof (cases "fp_less (thresh_pos this t2) (fp_abs (flts (data this) ! i))")
    case True
    then have "fp_less (thresh_pos this t1) (fp_abs (flts (data this) ! i))"
      using thresh_pos_mono [OF assms(7), of this] by (rule fp_le_less_trans [rotated])
    then show ?thesis using m1(3) that by simp
  next
    case False
    then have "ints (data maskCube) ! i = 1" using m2(3) that by simp
    then show ?thesis using m1(3) that by simp
  qed
  have "{i. i < data_size this \<and> ints (data ?M2) ! i = 1}
          \<subseteq> {i. i < data_size this \<and> ints (data ?M1) ! i = 1}"
    using e m1(2) m2(2) by auto
  then show ?thesis using a b c d by blast
qed

text \<open>The theorem at the three-pixel cube with the thresholds 3 and 6.\<close>

theorem DataCube_mask_idempotent_monotone_witness:
  "wf_cube ex_data \<and> wf_cube ex_mask \<and> data_type ex_data = - 32 \<and> data_type ex_mask = 32
   \<and> same_axes ex_data ex_mask \<and> fp_less (Fin 0) (Fin 3) \<and> fp_le (Fin 3) (Fin 6)
   \<and> (\<exists>M1 M2. DataCube_mask ex_data ex_mask (Fin 3) = Inr M1
     \<and> DataCube_mask ex_data M1 (Fin 3) = Inr M1
     \<and> DataCube_mask ex_data ex_mask (Fin 6) = Inr M2
     \<and> DataCube_mask_32 ex_data ex_mask (Fin 3) = Inr M1
     \<and> DataCube_mask_32 ex_data M1 (Fin 3) = Inr M1
     \<and> DataCube_mask_32 ex_data ex_mask (Fin 6) = Inr M2
     \<and> {i. i < 3 \<and> ints (data M2) ! i = 1} \<subseteq> {i. i < 3 \<and> ints (data M1) ! i = 1})"
proof -
  have pos: "fp_less (Fin 0) (Fin 3)" "fp_le (Fin 3) (Fin 6)" by simp_all
  show ?thesis
    using DataCube_mask_idempotent_monotone [of ex_data ex_mask "Fin 3" "Fin 6"] ex_cubes_wf pos
    by simp
qed

text \<open>
  Claim C9, as amended. For a header made of whole records and a key of 1 to 8 characters,
  \<^verbatim>\<open>DataCube_chkhd\<close> returns the 1-based position of the first record that begins
  with the key directly followed by a space or an equals sign (the byte tested is the one
  behind the key, not byte 8), and 0 when there is none. \<^verbatim>\<open>DataCube_gethd_raw\<close>, on which
  the \<^verbatim>\<open>gethd\<close> family rests, returns the value field of the first record that begins
  with the key and ignores no record. When no record begins with the key,
  \<^verbatim>\<open>DataCube_chkhd\<close> returns 0 and the \<^verbatim>\<open>gethd\<close> family returns 0, NaN, false and the
  flag 1 with the destination untouched.
\<close>

theorem header_lookup_first_match:
  assumes "length (header this) mod 80 = 0" and "0 < length key" and "length key \<le> 8"
  shows "DataCube_chkhd this key = Inr (first_pos (key_delimited key) (records (header this)))
    \<and> DataCube_gethd_raw this key
        = Inr (map_option value_field (find (begins_with key) (records (header this))))
    \<and> ((\<forall>r\<in>set (records (header this)). \<not> begins_with key r) \<longrightarrow>
         DataCube_chkhd this key = Inr 0 \<and> DataCube_gethd_int this key = Inr 0
         \<and> DataCube_gethd_flt ext this key = Inr NaN
         \<and> DataCube_gethd_bool this key = Inr False
         \<and> DataCube_gethd_str this key = Inr None)"
proof -
  have chk: "DataCube_chkhd this key
      = Inr (first_pos (key_delimited key) (records (header this)))"
    using assms chkhd_loop_records [of "header this" key 1]
    by (simp add: DataCube_chkhd_def split: nat.splits)
  have raw: "DataCube_gethd_raw this key
      = Inr (map_option value_field (find (begins_with key) (records (header this))))"
    using assms gethd_loop_records [of "header this" key] by (simp add: DataCube_gethd_raw_def)
  have "DataCube_chkhd this key = Inr 0 \<and> DataCube_gethd_int this key = Inr 0
         \<and> DataCube_gethd_flt ext this key = Inr NaN
         \<and> DataCube_gethd_bool this key = Inr False
         \<and> DataCube_gethd_str this key = Inr None"
    if none: "\<forall>r\<in>set (records (header this)). \<not> begins_with key r"
  proof -
    have "find (begins_with key) (records (header this)) = None"
      using none by (simp add: find_None_iff)
    moreover have "first_pos (key_delimited key) (records (header this)) = 0"
      using none by (simp add: first_pos_0_iff key_delimited_def)
    ultimately show ?thesis
      using chk raw
      by (simp add: DataCube_gethd_int_def DataCube_gethd_flt_def DataCube_gethd_bool_def
          DataCube_gethd_str_def)
  qed
  then show ?thesis using chk raw by blast
qed

text \<open>The theorem at the example header and the key \<^verbatim>\<open>CTYPE1\<close>, which no record begins with.\<close>

theorem header_lookup_first_match_witness:
  "length (header example_cube) mod 80 = 0 \<and> 0 < length ''CTYPE1'' \<and> length ''CTYPE1'' \<le> 8
   \<and> find (begins_with ''CTYPE1'') (records (header example_cube)) = None
   \<and> DataCube_chkhd example_cube ''CTYPE1'' = Inr 0
   \<and> DataCube_gethd_int example_cube ''CTYPE1'' = Inr 0
   \<and> DataCube_gethd_flt example_extern example_cube ''CTYPE1'' = Inr NaN
   \<and> DataCube_gethd_bool example_cube ''CTYPE1'' = Inr False
   \<and> DataCube_gethd_str example_cube ''CTYPE1'' = Inr None"
proof -
  have h: "header example_cube = example_header" by (simp add: example_cube_def)
  have 1: "length (header example_cube) mod 80 = 0" by (simp add: h length_example_header)
  have 2: "\<forall>r\<in>set (records (header example_cube)). \<not> begins_with ''CTYPE1'' r"
    unfolding h records_example_header
    by (simp add: begins_with_blank) (simp add: begins_with_def hdr_line_def)
  have 3: "0 < length ''CTYPE1''" and 4: "length ''CTYPE1'' \<le> 8" by simp_all
  have 5: "find (begins_with ''CTYPE1'') (records (header example_cube)) = None"
    using 2 by (simp add: find_None_iff)
  from header_lookup_first_match [OF 1 3 4, of example_extern] 1 2 3 4 5 show ?thesis by blast
qed

text \<open>
  Claim C9 as stated fails. The record \<^verbatim>\<open>NAXIS1\<close> begins with the key \<^verbatim>\<open>NAXIS\<close> and its
  byte 8 is an equals sign, so the lookup of the claim finds it at position 1, but
  \<^verbatim>\<open>DataCube_chkhd\<close> returns 0. The \<^verbatim>\<open>HISTORY\<close> record has an \<^verbatim>\<open>x\<close> at byte 8, so the
  lookup of the claim ignores it, but \<^verbatim>\<open>DataCube_gethd_int\<close> reads the 7 in its value
  field.
\<close>

theorem header_lookup_counterexample:
  "spec_lookup (header example_cube) ''NAXIS'' = 1
   \<and> DataCube_chkhd example_cube ''NAXIS'' = Inr 0
   \<and> spec_lookup (header example_cube) ''HISTORY'' = 0
   \<and> DataCube_gethd_int example_cube ''HISTORY'' = Inr 7"
proof -
  have h: "header example_cube = example_header" by (simp add: example_cube_def)
  have m: "length example_header mod 80 = 0" by (simp add: length_example_header)
  have "DataCube_chkhd example_cube ''NAXIS'' = Inr 0"
    using chkhd_loop_records [OF m, of "''NAXIS''" 1]
    by (simp add: DataCube_chkhd_def h example_lookups)
  moreover have "DataCube_gethd_int example_cube ''HISTORY'' = Inr 7"
    using gethd_loop_records [OF m, of "''HISTORY''"]
    by (simp add: DataCube_gethd_int_def DataCube_gethd_raw_def h example_lookups strtol_example)
  ultimately show ?thesis by (simp add: h example_lookups)
qed

text \<open>
  Claim C7, as amended. For the single-precision cube of 4 x 4 x 4 zeros, with any header,
  the finder with the spatial kernels \<open>[0.0]\<close>, the spectral kernels \<open>[0]\<close> and the
  threshold 3.5 returns no mask. The noise of the cube is 0 for every sampling, so the
  threshold that \<^verbatim>\<open>DataCube_mask_32\<close> receives is 0 and its check
  \<^verbatim>\<open>ensure(threshold > 0.0)\<close> fails, when no earlier check has failed: the run ends with
  an error.
\<close>

theorem run_scfind_zero_cube:
  "isl (DataCube_run_scfind ext (zero_cube hdr) signs [0] [0] (Fin (7 / 2)) maskScaleXY)"
proof (cases "sampleRms ext (zero_cube hdr)")
  case (Inl e)
  then show ?thesis
    unfolding DataCube_run_scfind_def by (auto split: sum.splits)
next
  case (Inr s)
  then have st: "DataCube_stat_std (zero_cube hdr) 0 s (- 1) = Inr (Fin 0)"
    using sampleRms_pos stat_std_zero_cube by blast
  show ?thesis
    unfolding DataCube_run_scfind_def Inr
    by (auto split: sum.splits simp: st dbl_mul_0 mask_32_threshold_0_never)
qed

text \<open>
  Claim C7 as stated fails: on the cube of zeros with a header of a single \<^verbatim>\<open>END\<close> record
  the finder returns an error and not a mask of zeros.
\<close>

theorem run_scfind_zero_cube_counterexample:
  "isl (DataCube_run_scfind example_extern
     (zero_cube (''END'' @ replicate (FITS_HEADER_BLOCK_SIZE - 3) SPACE)) (\<lambda>i. False) [0] [0]
     (Fin (7 / 2)) (Fin 0))"
proof -
  have "isl (DataCube_run_scfind example_extern (zero_cube hdr) (\<lambda>i. False) [0] [0]
      (Fin (7 / 2)) (Fin 0))" for hdr
  proof (cases "sampleRms example_extern (zero_cube hdr)")
    case (Inl e)
    then show ?thesis
      unfolding DataCube_run_scfind_def by (auto split: sum.splits)
  next
    case (Inr s)
    then have st: "DataCube_stat_std (zero_cube hdr) 0 s (- 1) = Inr (Fin 0)"
      using sampleRms_pos stat_std_zero_cube by blast
    show ?thesis
      unfolding DataCube_run_scfind_def Inr
      by (auto split: sum.splits simp: st dbl_mul_0 mask_32_threshold_0_never)
  qed
  then show ?thesis .
qed

text \<open>
  Claim C10 as stated fails: the boxcar of width 3 leaves a cube of zeros as it is, so
  \<^verbatim>\<open>DataCube_boxcar\<close> with radius 0 does not change the data of every floating-point cube.
\<close>

theorem DataCube_boxcar_radius_0_counterexample:
  "data_type flat_cube = - 64 \<and> DataCube_boxcar flat_cube 0 = Inr flat_cube"
  by (simp add: boxcar_flat) (simp add: flat_cube_def data_type_def)

text \<open>
  Claim C10, as amended. \<^verbatim>\<open>DataCube_boxcar\<close> with radius 0 is \<^verbatim>\<open>DataCube_boxcar\<close> with
  radius 1. It returns for every floating-point cube whose payload spans the three
  axes, and what it returns is the boxcar of width 3 of the cube: header, axis sizes and
  type stay, and every pixel \<open>(x, y, z)\<close> becomes, narrowed to the precision of the cube,
  the mean of the pixels \<open>z - 1\<close>, \<open>z\<close> and \<open>z + 1\<close> of its spectrum, with 0 beyond the ends.
  In the finder, the working copy for the spectral kernel 1, whose radius is
  \<open>1 div 2 = 0\<close>, is therefore the boxcar of width 3 of the working copy for the spectral
  kernel 0 (the cube with the detected pixels replaced and smoothed in space only), and
  not that copy itself.
\<close>

theorem DataCube_boxcar_radius_0_width_3:
  "DataCube_boxcar this 0 = DataCube_boxcar this 1
   \<and> ((data_type this = - 32 \<or> data_type this = - 64)
        \<and> axis_size this ! 0 * axis_size this ! 1 * axis_size this ! 2 \<le> data_size this
      \<longrightarrow> (\<exists>c. DataCube_boxcar this 0 = Inr c))
   \<and> (\<forall>c. DataCube_boxcar this 0 = Inr c \<longrightarrow>
        header c = header this \<and> axis_size c = axis_size this \<and> data_type c = data_type this
        \<and> (\<forall>x<axis_size this ! 0. \<forall>y<axis_size this ! 1. \<forall>z<axis_size this ! 2.
              flts (data c) ! DataCube_get_index this x y z = store_of this (mean_3 this x y z)))
   \<and> (\<forall>c2. smoothed_copy ext this signs maskCube v kxy 0 = Inr c2 \<longrightarrow>
        smoothed_copy ext this signs maskCube v kxy 1 = DataCube_boxcar c2 0)
   \<and> (\<forall>S. smoothed_copy ext this signs maskCube v kxy 1 = Inr S \<longrightarrow>
        (\<exists>c2. smoothed_copy ext this signs maskCube v kxy 0 = Inr c2 \<and> DataCube_boxcar c2 0 = Inr S
           \<and> (\<forall>x<axis_size c2 ! 0. \<forall>y<axis_size c2 ! 1. \<forall>z<axis_size c2 ! 2.
                flts (data S) ! DataCube_get_index c2 x y z = store_of c2 (mean_3 c2 x y z))))"
proof (intro conjI allI impI)
  show "DataCube_boxcar this 0 = DataCube_boxcar this 1" by (rule boxcar_promoted)
next
  assume "(data_type this = - 32 \<or> data_type this = - 64)
        \<and> axis_size this ! 0 * axis_size this ! 1 * axis_size this ! 2 \<le> data_size this"
  then show "\<exists>c. DataCube_boxcar this 0 = Inr c"
    using boxcar_returns [of this 0] by blast
next
  fix c assume c: "DataCube_boxcar this 0 = Inr c"
  show "header c = header this" "axis_size c = axis_size this" "data_type c = data_type this"
    using boxcar_keeps [OF c] by simp_all
  fix x y z assume "x < axis_size this ! 0" "y < axis_size this ! 1" "z < axis_size this ! 2"
  then show "flts (data c) ! DataCube_get_index this x y z = store_of this (mean_3 this x y z)"
    by (rule boxcar_pixel [OF c])
next
  fix c2 assume "smoothed_copy ext this signs maskCube v kxy 0 = Inr c2"
  then show "smoothed_copy ext this signs maskCube v kxy 1 = DataCube_boxcar c2 0"
    by (rule smoothed_copy_kz_1)
next
  fix S assume S: "smoothed_copy ext this signs maskCube v kxy 1 = Inr S"
  then obtain c2 where c2: "smoothed_copy ext this signs maskCube v kxy 0 = Inr c2"
    using smoothed_copy_kz_1_source by blast
  then have b: "DataCube_boxcar c2 0 = Inr S" using S smoothed_copy_kz_1 by simp
  have "\<forall>x<axis_size c2 ! 0. \<forall>y<axis_size c2 ! 1. \<forall>z<axis_size c2 ! 2.
      flts (data S) ! DataCube_get_index c2 x y z = store_of c2 (mean_3 c2 x y z)"
    using boxcar_pixel [OF b] by blast
  then show "\<exists>c2. smoothed_copy ext this signs maskCube v kxy 0 = Inr c2 \<and> DataCube_boxcar c2 0 = Inr S
           \<and> (\<forall>x<axis_size c2 ! 0. \<forall>y<axis_size c2 ! 1. \<forall>z<axis_size c2 ! 2.
                flts (data S) ! DataCube_get_index c2 x y z = store_of c2 (mean_3 c2 x y z))"
    using c2 b by blast
qed

text \<open>
  The theorem at the spectrum 0, 3, 0, which radius 0 turns into 1, 1, 1: the data have
  changed, and the working copy of the finder for the kernels \<open>(0, 1)\<close> is this smoothed
  cube.
\<close>

theorem DataCube_boxcar_radius_0_width_3_witness:
  "data_type spike_cube = - 64
   \<and> axis_size spike_cube ! 0 * axis_size spike_cube ! 1 * axis_size spike_cube ! 2
       \<le> data_size spike_cube
   \<and> DataCube_boxcar spike_cube 0 = Inr (spike_cube\<lparr>data := F64 [Fin 1, Fin 1, Fin 1]\<rparr>)
   \<and> DataCube_boxcar spike_cube 0 = DataCube_boxcar spike_cube 1
   \<and> DataCube_boxcar spike_cube 0 \<noteq> Inr spike_cube
   \<and> flts (data (spike_cube\<lparr>data := F64 [Fin 1, Fin 1, Fin 1]\<rparr>))
        ! DataCube_get_index spike_cube 0 0 1 = store_of spike_cube (mean_3 spike_cube 0 0 1)
   \<and> store_of spike_cube (mean_3 spike_cube 0 0 1) = Fin 1
   \<and> smoothed_copy example_extern spike_cube (\<lambda>i. False) spike_mask (Fin 0) 0 0 = Inr spike_cube
   \<and> smoothed_copy example_extern spike_cube (\<lambda>i. False) spike_mask (Fin 0) 0 1
       = Inr (spike_cube\<lparr>data := F64 [Fin 1, Fin 1, Fin 1]\<rparr>)"
proof -
  have ne: "spike_cube\<lparr>data := F64 [Fin 1, Fin 1, Fin 1]\<rparr> \<noteq> spike_cube"
    by (simp add: spike_cube_def)
  have t: "data_type spike_cube = - 64" "data_size spike_cube = 3"
    "axis_size spike_cube = [1, 1, 3, 1]"
    by (simp_all add: spike_cube_def data_type_def data_size_def)
  have "mean_3 spike_cube 0 0 1 = Fin 1" using mean_3_spike by simp
  then have s: "store_of spike_cube (mean_3 spike_cube 0 0 1) = Fin 1"
    by (simp add: store_of_def t)
  note T = DataCube_boxcar_radius_0_width_3 [of spike_cube example_extern "\<lambda>i. False" spike_mask "Fin 0" 0]
  have sz: "axis_size spike_cube ! 0 * axis_size spike_cube ! 1 * axis_size spike_cube ! 2
       \<le> data_size spike_cube"
    by (simp add: t)
  have b: "DataCube_boxcar spike_cube 0 = DataCube_boxcar spike_cube 1" using T by blast
  have "\<forall>x<axis_size spike_cube ! 0. \<forall>y<axis_size spike_cube ! 1. \<forall>z<axis_size spike_cube ! 2.
      flts (data (spike_cube\<lparr>data := F64 [Fin 1, Fin 1, Fin 1]\<rparr>))
        ! DataCube_get_index spike_cube x y z = store_of spike_cube (mean_3 spike_cube x y z)"
    using T boxcar_spike by blast
  moreover have "0 < axis_size spike_cube ! 0" "0 < axis_size spike_cube ! 1"
    "1 < axis_size spike_cube ! 2"
    by (simp_all add: t)
  ultimately have c: "flts (data (spike_cube\<lparr>data := F64 [Fin 1, Fin 1, Fin 1]\<rparr>))
        ! DataCube_get_index spike_cube 0 0 1 = store_of spike_cube (mean_3 spike_cube 0 0 1)"
    by blast
  have "smoothed_copy example_extern spike_cube (\<lambda>i. False) spike_mask (Fin 0) 0 1
      = DataCube_boxcar spike_cube 0"
    using T smoothed_copy_spike [of example_extern "\<lambda>i. False" "Fin 0"] by blast
  then have d: "smoothed_copy example_extern spike_cube (\<lambda>i. False) spike_mask (Fin 0) 0 1
      = Inr (spike_cube\<lparr>data := F64 [Fin 1, Fin 1, Fin 1]\<rparr>)"
    by (simp only: boxcar_spike)
  have e: "DataCube_boxcar spike_cube 0 \<noteq> Inr spike_cube"
    using ne by (simp only: boxcar_spike sum.inject) simp
  show ?thesis
    using t(1) sz boxcar_spike b e c s smoothed_copy_spike [of example_extern "\<lambda>i. False" "Fin 0"] d
    by blast
qed


text \<open>
  Claim C8 as stated fails: on the 2 x 2 x 2 mask two sources survive and the reduced
  table has their two rows, but \<^verbatim>\<open>DataCube_run_linker\<close> hands no table to its caller.
\<close>

theorem run_linker_table_counterexample:
  "DataCube_run_linker col_mask 1 1 1 1 1 1
     = Inr (col_mask\<lparr>data := I32 [2, 0, 0, 0, 1, 0, 0, 0]\<rparr>, None)
   \<and> linker_result col_mask 1 1 1 1 1 1
     = Inr (col_mask\<lparr>data := I32 [2, 0, 0, 0, 1, 0, 0, 0]\<rparr>,
         [col_dummy\<lparr>label := 1, z_min := 1, z_max := 1\<rparr>, col_dummy\<lparr>label := 2\<rparr>])"
  using col_linked_1 by (simp add: run_linker_result)

text \<open>
  Claim C8, as amended. \<^verbatim>\<open>DataCube_run_linker\<close> rewrites the mask cube in place: header,
  dimension and axis sizes stay, the payload is a 32-bit payload of the same size. It
  returns no table. The reduced table that it deletes before it returns has exactly
  one row per surviving source: the final labels of its rows are distinct, and they are
  the positive values of the rewritten mask.
\<close>

theorem run_linker_keeps_no_table:
  assumes "wf_cube this" and "set (ints (data this)) \<subseteq> {0, 1}"
    and "int (data_size this) + 2 < 2 ^ 31"
    and "DataCube_run_linker this radius_x radius_y radius_z min_size_x min_size_y min_size_z
           = Inr (M, tbl)"
  shows "tbl = None \<and> header M = header this \<and> dimension M = dimension this
     \<and> axis_size M = axis_size this \<and> data_type M = 32 \<and> data_size M = data_size this
     \<and> (\<exists>T. linker_result this radius_x radius_y radius_z min_size_x min_size_y min_size_z
           = Inr (M, T)
         \<and> distinct (map label T)
         \<and> int ` set (map label T) = {v \<in> set (ints (data M)). 0 < v})"
proof -
  obtain T where T: "linker_result this radius_x radius_y radius_z min_size_x min_size_y min_size_z
      = Inr (M, T)" and none: "tbl = None"
    using assms(4) by (auto simp: run_linker_result)
  obtain m K where p: "M = this\<lparr>data := I32 m\<rparr>" "length m = data_size this"
      "\<forall>i<data_size this. m ! i = 0 \<or> (1 \<le> m ! i \<and> m ! i \<le> int K)"
      "\<forall>k. 1 \<le> k \<and> k \<le> K \<longrightarrow> (\<exists>i<data_size this. m ! i = int k)"
      "map label T = [1..<Suc K]"
    using linker_result_props [OF T assms(1-3)] by blast
  have m: "ints (data M) = m" by (simp add: p(1))
  have "int ` set (map label T) = {v \<in> set m. 0 < v}"
  proof (intro equalityI subsetI)
    fix v assume "v \<in> int ` set (map label T)"
    then obtain k where k: "v = int k" "1 \<le> k \<and> k \<le> K" unfolding p(5) by auto
    then obtain i where i: "i < data_size this" "m ! i = int k" using p(4) by blast
    then have "m ! i \<in> set m" using p(2) by (intro nth_mem) simp
    then show "v \<in> {v \<in> set m. 0 < v}" using k i by simp
  next
    fix v assume "v \<in> {v \<in> set m. 0 < v}"
    then obtain i where "i < length m" "m ! i = v" "0 < v" by (auto simp: in_set_conv_nth)
    then have "1 \<le> nat v \<and> nat v < Suc K" "v = int (nat v)" using p(2,3) by fastforce+
    then show "v \<in> int ` set (map label T)" unfolding p(5) by (metis atLeastLessThan_iff imageI set_upt)
  qed
  moreover have "distinct (map label T)" by (simp add: p(5))
  ultimately show ?thesis
    using T none p(2) unfolding m by (simp add: p(1) data_type_def data_size_def)
qed

text \<open>
  The theorem at the 2 x 2 x 2 mask with merging radii \<open>(0, 0, 1)\<close>: the two candidate
  pixels are merged into the source 1.
\<close>

theorem run_linker_keeps_no_table_witness:
  "wf_cube col_mask \<and> set (ints (data col_mask)) \<subseteq> {0, 1}
   \<and> int (data_size col_mask) + 2 < 2 ^ 31
   \<and> DataCube_run_linker col_mask 0 0 1 1 1 1 = Inr (col_mask, None)
   \<and> (\<exists>T. linker_result col_mask 0 0 1 1 1 1 = Inr (col_mask, T)
         \<and> distinct (map label T)
         \<and> int ` set (map label T) = {v \<in> set (ints (data col_mask)). 0 < v})"
proof -
  have same: "col_mask\<lparr>data := I32 [1, 0, 0, 0, 1, 0, 0, 0]\<rparr> = col_mask"
    by (simp add: col_mask_def)
  have run: "DataCube_run_linker col_mask 0 0 1 1 1 1 = Inr (col_mask, None)"
    using col_linked_0 by (simp add: run_linker_result same)
  have hyp: "wf_cube col_mask" "set (ints (data col_mask)) \<subseteq> {0, 1}"
    "int (data_size col_mask) + 2 < 2 ^ 31"
    by (simp_all add: col_mask_wf)
  show ?thesis
    using run_linker_keeps_no_table [OF hyp run] hyp run by blast
qed




end
